theory Spec2Isabelle
  imports Complex_Main "HOL-Library.AList"
begin

section \<open>JavaScript values\<close>

text \<open>
  A JavaScript \<^verbatim>\<open>Set<string>\<close> keeps its members in insertion order and never holds a
  member twice; it is modelled as a list, \<^verbatim>\<open>add\<close> appending a member that is new,
  \<^verbatim>\<open>has\<close> testing membership and \<^verbatim>\<open>size\<close> being the length.

  An object written \<^verbatim>\<open>{}\<close> and used as a dictionary holds its own properties, an association
  list in insertion order here, and inherits those of \<^verbatim>\<open>Object.prototype\<close>. \<^verbatim>\<open>obj[key]\<close> is
  the own property when there is one; otherwise, for a key that names a member of
  \<^verbatim>\<open>Object.prototype\<close>, it is that member, a function (for \<^verbatim>\<open>__proto__\<close> the prototype
  itself), which is truthy and has neither \<^verbatim>\<open>size\<close> nor \<^verbatim>\<open>add\<close> nor \<^verbatim>\<open>has\<close>; otherwise it is
  \<^verbatim>\<open>undefined\<close>. \<^verbatim>\<open>Object.keys\<close> lists the own properties only.

  A number is a rational or \<^verbatim>\<open>NaN\<close>; the rationals are exact here, where the source rounds
  to a double. Calling what is not a function raises a \<^verbatim>\<open>TypeError\<close>.
\<close>

definition set_add :: "'a \<Rightarrow> 'a list \<Rightarrow> 'a list" where
  "set_add x s = (if x \<in> set s then s else s @ [x])"

definition set_has :: "'a list \<Rightarrow> 'a \<Rightarrow> bool" where
  "set_has s x = (x \<in> set s)"

definition set_size :: "'a list \<Rightarrow> nat" where
  "set_size s = length s"

datatype number = Num rat | NaN

datatype js_error = TypeError

datatype property = Undefined | Inherited | Own "string list"

definition objectPrototype :: "string list" where
  "objectPrototype =
     [''constructor'', ''__defineGetter__'', ''__defineSetter__'', ''hasOwnProperty'',
      ''__lookupGetter__'', ''__lookupSetter__'', ''isPrototypeOf'', ''propertyIsEnumerable'',
      ''toString'', ''valueOf'', ''__proto__'', ''toLocaleString'']"

definition getProperty :: "(string \<times> string list) list \<Rightarrow> string \<Rightarrow> property" where
  "getProperty obj key =
     (case map_of obj key of
        Some s \<Rightarrow> Own s
      | None \<Rightarrow> if key \<in> set objectPrototype then Inherited else Undefined)"

definition addNumbers :: "number \<Rightarrow> number \<Rightarrow> number" where
  "addNumbers a b = (case (a, b) of (Num x, Num y) \<Rightarrow> Num (x + y) | _ \<Rightarrow> NaN)"


section \<open>The table \<^verbatim>\<open>msl_items\<close>\<close>

text \<open>
  A row of \<^verbatim>\<open>msl_items\<close> as the migration declares it, without the columns the database
  fills in by itself (\<^verbatim>\<open>id\<close>, \<^verbatim>\<open>created_at\<close>, \<^verbatim>\<open>updated_at\<close>). \<^verbatim>\<open>notes\<close> is nullable; the
  field is written \<open>notes'\<close>, \<open>notes\<close> being a keyword of Isabelle.
\<close>

record MSLItem =
  category :: string
  sku_code :: string
  product_name :: string
  priority :: int
  notes' :: "string option"

section \<open>MSL achievement (Overview.tsx, DailyRecap.tsx)\<close>

text \<open>
  Both components build \<^verbatim>\<open>mslByCategory\<close> by the same \<^verbatim>\<open>reduce\<close> over the rows selected
  from \<^verbatim>\<open>msl_items\<close> (\<^verbatim>\<open>mslData || []\<close>: a failed query gives \<^verbatim>\<open>null\<close>), starting from \<^verbatim>\<open>{}\<close>:
  \<^verbatim>\<open>if (!acc[item.category]) acc[item.category] = new Set()\<close>, then
  \<^verbatim>\<open>acc[item.category].add(item.sku_code)\<close>. For a category that names a member of
  \<^verbatim>\<open>Object.prototype\<close> the inherited member is truthy, no set is made, and the call of
  \<^verbatim>\<open>add\<close> raises.
\<close>

type_synonym msl_by_category = "(string \<times> string list) list"

definition mslStep :: "msl_by_category \<Rightarrow> MSLItem \<Rightarrow> js_error + msl_by_category" where
  "mslStep acc item =
     (case getProperty acc (category item) of
        Undefined \<Rightarrow> Inr (AList.update (category item) (set_add (sku_code item) []) acc)
      | Own s \<Rightarrow> Inr (AList.update (category item) (set_add (sku_code item) s) acc)
      | Inherited \<Rightarrow> Inl TypeError)"

fun mslReduce :: "msl_by_category \<Rightarrow> MSLItem list \<Rightarrow> js_error + msl_by_category" where
  "mslReduce acc [] = Inr acc"
| "mslReduce acc (item # rest) =
     (case mslStep acc item of
        Inl e \<Rightarrow> Inl e
      | Inr acc' \<Rightarrow> mslReduce acc' rest)"

definition mslByCategory :: "MSLItem list option \<Rightarrow> js_error + msl_by_category" where
  "mslByCategory mslData =
     mslReduce [] (case mslData of None \<Rightarrow> [] | Some rows \<Rightarrow> rows)"

text \<open>
  \<^verbatim>\<open>if (!categoryMSL || categoryMSL.size === 0) continue\<close>: an inherited member is truthy and
  its \<^verbatim>\<open>size\<close> is \<^verbatim>\<open>undefined\<close>, so the store is not skipped.
\<close>

definition skipped :: "property \<Rightarrow> bool" where
  "skipped categoryMSL =
     (case categoryMSL of
        Undefined \<Rightarrow> True
      | Own s \<Rightarrow> set_size s = 0
      | Inherited \<Rightarrow> False)"

text \<open>
  The two lines both components share:
  \<^verbatim>\<open>mslSkusBought = Array.from(boughtSkus).filter(sku => categoryMSL.has(sku)).length\<close> and
  \<^verbatim>\<open>storeAchievement = (mslSkusBought / categoryMSL.size) * 100\<close>. With an inherited member
  for \<^verbatim>\<open>categoryMSL\<close>, \<^verbatim>\<open>has\<close> is called, and raises, when a SKU was bought; when none was,
  the quotient is \<^verbatim>\<open>0 / undefined\<close>, which is \<^verbatim>\<open>NaN\<close>. On \<^verbatim>\<open>undefined\<close> the access raises,
  and for an empty set the quotient is \<^verbatim>\<open>0 / 0\<close>; the loops skip both.
\<close>

definition storeAchievement :: "string list \<Rightarrow> property \<Rightarrow> js_error + number" where
  "storeAchievement boughtSkus categoryMSL =
     (case categoryMSL of
        Undefined \<Rightarrow> Inl TypeError
      | Inherited \<Rightarrow> if boughtSkus = [] then Inr NaN else Inl TypeError
      | Own s \<Rightarrow>
          (let mslSkusBought = length (filter (set_has s) boughtSkus)
           in if set_size s = 0 then Inr NaN
              else Inr (Num ((of_nat mslSkusBought / of_nat (set_size s)) * 100))))"

text \<open>\<^verbatim>\<open>storeCount > 0 ? totalAchievement / storeCount : 0\<close>\<close>

definition finish :: "number \<times> nat \<Rightarrow> number" where
  "finish acc = (case acc of (totalAchievement, storeCount) \<Rightarrow>
     if storeCount > 0
     then (case totalAchievement of
             NaN \<Rightarrow> NaN
           | Num x \<Rightarrow> Num (x / of_nat storeCount))
     else Num 0)"

text \<open>
  Both computations run inside \<^verbatim>\<open>try\<close>; the \<^verbatim>\<open>catch\<close> sets the achievement that is shown
  to 0, with the other figures.
\<close>

definition shown :: "js_error + number \<Rightarrow> number" where
  "shown r = (case r of Inl e \<Rightarrow> Num 0 | Inr mslAchievement \<Rightarrow> mslAchievement)"

subsection \<open>Overview.tsx: fetchDashboardStats\<close>

text \<open>
  \<^verbatim>\<open>storesData\<close> are the rows \<^verbatim>\<open>id, category\<close> of the stores; for each store that is not
  skipped, the orders of the day are queried, the query being a parameter here: it gives the
  visits, each with the SKU of every order line (\<^verbatim>\<open>None\<close> where \<^verbatim>\<open>order.products?.sku_code\<close>
  is missing), or \<^verbatim>\<open>null\<close>.
\<close>

record StoreRow =
  store_id :: string
  st_category :: string

type_synonym orders_data = "string option list list"

definition boughtSkusOverview :: "orders_data option \<Rightarrow> string list" where
  "boughtSkusOverview ordersData =
     foldl (\<lambda>bought visit.
        foldl (\<lambda>b order. case order of
                 None \<Rightarrow> b
               | Some sku \<Rightarrow> if sku \<noteq> [] then set_add sku b else b) bought visit)
       [] (case ordersData of None \<Rightarrow> [] | Some visits \<Rightarrow> visits)"

fun overviewLoop ::
  "msl_by_category \<Rightarrow> (string \<Rightarrow> orders_data option) \<Rightarrow> StoreRow list \<Rightarrow> number \<times> nat
     \<Rightarrow> js_error + number \<times> nat"
where
  "overviewLoop msl ordersQuery [] acc = Inr acc"
| "overviewLoop msl ordersQuery (store # rest) (totalAchievement, storeCount) =
     (let categoryMSL = getProperty msl (st_category store) in
      if skipped categoryMSL
      then overviewLoop msl ordersQuery rest (totalAchievement, storeCount)
      else
        (case storeAchievement (boughtSkusOverview (ordersQuery (store_id store))) categoryMSL of
           Inl e \<Rightarrow> Inl e
         | Inr achievement \<Rightarrow>
             overviewLoop msl ordersQuery rest
               (addNumbers totalAchievement achievement, storeCount + 1)))"

definition overviewAchievement ::
  "MSLItem list option \<Rightarrow> StoreRow list option \<Rightarrow> (string \<Rightarrow> orders_data option)
     \<Rightarrow> js_error + number"
where
  "overviewAchievement mslData storesData ordersQuery =
     (case mslByCategory mslData of
        Inl e \<Rightarrow> Inl e
      | Inr msl \<Rightarrow>
          if length (map fst msl) > 0 then
            (case storesData of
               None \<Rightarrow> Inr (Num 0)
             | Some stores \<Rightarrow>
                 if length stores > 0
                 then (case overviewLoop msl ordersQuery stores (Num 0, 0) of
                         Inl e \<Rightarrow> Inl e
                       | Inr acc \<Rightarrow> Inr (finish acc))
                 else Inr (Num 0))
          else Inr (Num 0))"

subsection \<open>DailyRecap.tsx: fetchDailyData\<close>

text \<open>
  A visit of the day, with the fields the achievement reads; \<^verbatim>\<open>order_items\<close> holds the
  \<^verbatim>\<open>sku_code\<close> of each order line. Visits are grouped by the key
  \<^verbatim>\<open>`${visit.store_name}-${visit.store_code}`\<close>; a group keeps the category of its first visit.
  A key holds a hyphen, so it names no member of \<^verbatim>\<open>Object.prototype\<close> and is no array index:
  the groups are the own properties, in insertion order.
\<close>

record Visit =
  store_name :: string
  store_code :: string
  store_category :: string
  order_items :: "string list"

type_synonym store_visits = "(string \<times> string \<times> string list) list"

definition storeVisitsStep :: "store_visits \<Rightarrow> Visit \<Rightarrow> store_visits" where
  "storeVisitsStep acc visit =
     (let key = store_name visit @ ''-'' @ store_code visit in
      case map_of acc key of
        None \<Rightarrow> AList.update key (store_category visit, [] @ order_items visit) acc
      | Some (cat, orderItems) \<Rightarrow> AList.update key (cat, orderItems @ order_items visit) acc)"

definition storeVisits :: "Visit list \<Rightarrow> store_visits" where
  "storeVisits visits = foldl storeVisitsStep [] visits"

definition boughtSkusDaily :: "string list \<Rightarrow> string list" where
  "boughtSkusDaily orderItems =
     foldl (\<lambda>b sku. if sku \<noteq> [] then set_add sku b else b) [] orderItems"

fun dailyLoop ::
  "msl_by_category \<Rightarrow> store_visits \<Rightarrow> number \<times> nat \<Rightarrow> js_error + number \<times> nat"
where
  "dailyLoop msl [] acc = Inr acc"
| "dailyLoop msl ((storeKey, cat, orderItems) # rest) (totalAchievement, storeCount) =
     (let categoryMSL = getProperty msl cat in
      if skipped categoryMSL
      then dailyLoop msl rest (totalAchievement, storeCount)
      else
        (case storeAchievement (boughtSkusDaily orderItems) categoryMSL of
           Inl e \<Rightarrow> Inl e
         | Inr achievement \<Rightarrow>
             dailyLoop msl rest (addNumbers totalAchievement achievement, storeCount + 1)))"

definition dailyAchievement :: "MSLItem list option \<Rightarrow> Visit list \<Rightarrow> js_error + number" where
  "dailyAchievement mslData visits =
     (case mslByCategory mslData of
        Inl e \<Rightarrow> Inl e
      | Inr msl \<Rightarrow>
          if length (map fst msl) > 0 \<and> length visits > 0
          then (case dailyLoop msl (storeVisits visits) (Num 0, 0) of
                  Inl e \<Rightarrow> Inl e
                | Inr acc \<Rightarrow> Inr (finish acc))
          else Inr (Num 0))"

subsection \<open>What the specification calls an included store\<close>

text \<open>
  A store is included when its category has a non-empty MSL set among the own properties of
  \<open>mslByCategory\<close>; its share is the part of that set it bought, as a percentage.
\<close>

definition included :: "msl_by_category \<Rightarrow> string \<Rightarrow> bool" where
  "included msl cat = (map_of msl cat \<noteq> None \<and> map_of msl cat \<noteq> Some [])"

definition share :: "msl_by_category \<Rightarrow> string \<Rightarrow> string list \<Rightarrow> rat" where
  "share msl cat boughtSkus =
     (case map_of msl cat of
        None \<Rightarrow> 0
      | Some s \<Rightarrow> of_nat (length (filter (set_has s) boughtSkus)) / of_nat (length s) * 100)"

subsection \<open>Concrete inputs\<close>

text \<open>
  The example of the specification: the MSL of category X is A, B, C; store s1 bought A and C,
  store s2 bought nothing, and store s3 is of category Y, which has no MSL. Store s4 has the
  category \<^verbatim>\<open>constructor\<close>, which has no MSL either, and no order. \<open>visitX\<close>, \<open>visitY\<close> and
  \<open>visitConstructor\<close> are visits to s1, s3 and s4. \<open>mslToString\<close> adds to the MSL a row of category \<^verbatim>\<open>toString\<close>.
\<close>

definition mslABC :: "MSLItem list" where
  "mslABC =
     [\<lparr>category = ''X'', sku_code = ''A'', product_name = ''a'', priority = 1, notes' = None\<rparr>,
      \<lparr>category = ''X'', sku_code = ''B'', product_name = ''b'', priority = 2, notes' = None\<rparr>,
      \<lparr>category = ''X'', sku_code = ''C'', product_name = ''c'', priority = 3, notes' = None\<rparr>]"

definition storesX :: "StoreRow list" where
  "storesX = [\<lparr>store_id = ''s1'', st_category = ''X''\<rparr>, \<lparr>store_id = ''s2'', st_category = ''X''\<rparr>]"

definition storeY :: StoreRow where
  "storeY = \<lparr>store_id = ''s3'', st_category = ''Y''\<rparr>"

definition storeConstructor :: StoreRow where
  "storeConstructor = \<lparr>store_id = ''s4'', st_category = ''constructor''\<rparr>"

definition ordersOfTheDay :: "string \<Rightarrow> orders_data option" where
  "ordersOfTheDay i = (if i = ''s1'' then Some [[Some ''A'', Some ''C'']] else Some [])"

definition visitX :: Visit where
  "visitX = \<lparr>store_name = ''n1'', store_code = ''c1'', store_category = ''X'',
              order_items = [''A'', ''C'']\<rparr>"

definition visitY :: Visit where
  "visitY = \<lparr>store_name = ''n3'', store_code = ''c3'', store_category = ''Y'',
              order_items = [''A'']\<rparr>"

definition visitConstructor :: Visit where
  "visitConstructor = \<lparr>store_name = ''n4'', store_code = ''c4'', store_category = ''constructor'',
              order_items = []\<rparr>"

text \<open>
  Two stores whose names and codes give the same key A-B-C: the first of category Y, or of
  category X with one of the three SKUs bought, the second of category X.
\<close>

definition visitAB_C :: "string \<Rightarrow> string list \<Rightarrow> Visit" where
  "visitAB_C cat items = \<lparr>store_name = ''A-B'', store_code = ''C'', store_category = cat,
              order_items = items\<rparr>"

definition visitA_BC :: "string list \<Rightarrow> Visit" where
  "visitA_BC items = \<lparr>store_name = ''A'', store_code = ''B-C'', store_category = ''X'',
              order_items = items\<rparr>"

definition mslToString :: "MSLItem list" where
  "mslToString = mslABC @
     [\<lparr>category = ''toString'', sku_code = ''A'', product_name = ''a'', priority = 1,
        notes' = None\<rparr>]"

section \<open>CSV rows as the upload components keep them\<close>

text \<open>
  \<^verbatim>\<open>CsvMSLItem\<close> of MSLCsvUpload.tsx. \<^verbatim>\<open>priority\<close> is the result of \<^verbatim>\<open>parseInt\<close>: an integer,
  or \<^verbatim>\<open>NaN\<close>, which is \<open>None\<close> here. The fields carry the prefix \<open>csv_\<close> to keep them apart
  from the columns of the table.
\<close>

record CsvMSLItem =
  csv_category :: string
  csv_sku_code :: string
  csv_product_name :: string
  csv_priority :: "int option"
  csv_notes :: string
  isValid :: bool
  error :: string

section \<open>The data store behind \<^verbatim>\<open>supabase.from('msl_items')\<close>\<close>

text \<open>
  The client library and the database are not part of the repository; the table is modelled
  from the migration that creates it: \<^verbatim>\<open>priority integer NOT NULL\<close> and
  \<^verbatim>\<open>UNIQUE(category, sku_code)\<close>. A \<^verbatim>\<open>delete().eq('category', c)\<close> removes the rows of the
  category; an \<^verbatim>\<open>insert\<close> of several rows is one statement, which adds all of them or, when a
  constraint is violated, none. Failures of the transport are not modelled: in this store a
  delete always succeeds. The branch of the source that handles a failed delete is kept.
\<close>

datatype db_error = NotNullViolation | OutOfRange | UniqueViolation

record MSLInsert =
  ins_category :: string
  ins_sku_code :: string
  ins_product_name :: string
  ins_priority :: "int option"
  ins_notes :: "string option"

type_synonym msl_table = "MSLItem list"

definition mslKey :: "MSLItem \<Rightarrow> string \<times> string" where
  "mslKey r = (category r, sku_code r)"

definition deleteEqCategory :: "string \<Rightarrow> msl_table \<Rightarrow> db_error + msl_table" where
  "deleteEqCategory c tbl = Inr (filter (\<lambda>r. category r \<noteq> c) tbl)"

definition toRow :: "MSLInsert \<Rightarrow> MSLItem" where
  "toRow d = \<lparr>category = ins_category d, sku_code = ins_sku_code d,
               product_name = ins_product_name d,
               priority = (case ins_priority d of None \<Rightarrow> 0 | Some p \<Rightarrow> p),
               notes' = ins_notes d\<rparr>"

definition insertRows :: "MSLInsert list \<Rightarrow> msl_table \<Rightarrow> db_error + msl_table" where
  "insertRows insertData tbl =
     (if list_ex (\<lambda>d. ins_priority d = None) insertData then Inl NotNullViolation
      else if list_ex (\<lambda>d. case ins_priority d of None \<Rightarrow> False
                               | Some p \<Rightarrow> p < - (2 ^ 31) \<or> 2 ^ 31 \<le> p) insertData
      then Inl OutOfRange
      else if \<not> distinct (map mslKey (tbl @ map toRow insertData)) then Inl UniqueViolation
      else Inr (tbl @ map toRow insertData))"

section \<open>MSLCsvUpload.tsx: uploadMSL\<close>

text \<open>
  \<^verbatim>\<open>[...new Set(validItems.map(item => item.category))]\<close>: the categories of the valid items,
  each once, in order of first occurrence.
\<close>

definition categoriesToUpdate :: "CsvMSLItem list \<Rightarrow> string list" where
  "categoriesToUpdate validItems = foldl (\<lambda>s c. set_add c s) [] (map csv_category validItems)"

fun deleteLoop :: "string list \<Rightarrow> msl_table \<Rightarrow> db_error option \<times> msl_table" where
  "deleteLoop [] tbl = (None, tbl)"
| "deleteLoop (c # rest) tbl =
     (case deleteEqCategory c tbl of
        Inl deleteError \<Rightarrow> (Some deleteError, tbl)
      | Inr tbl' \<Rightarrow> deleteLoop rest tbl')"

definition insertData :: "CsvMSLItem list \<Rightarrow> MSLInsert list" where
  "insertData validItems =
     map (\<lambda>item. \<lparr>ins_category = csv_category item, ins_sku_code = csv_sku_code item,
                   ins_product_name = csv_product_name item, ins_priority = csv_priority item,
                   ins_notes = (if csv_notes item \<noteq> [] then Some (csv_notes item) else None)\<rparr>)
       validItems"

text \<open>
  The result is the error that was thrown and caught, if any, and the table as the upload
  leaves it. The summary shown to the user is left out.
\<close>

definition uploadMSL :: "CsvMSLItem list \<Rightarrow> msl_table \<Rightarrow> db_error option \<times> msl_table" where
  "uploadMSL parsedItems tbl =
     (let validItems = filter isValid parsedItems in
      case deleteLoop (categoriesToUpdate validItems) tbl of
        (Some deleteError, tbl') \<Rightarrow> (Some deleteError, tbl')
      | (None, tbl') \<Rightarrow>
          (case insertRows (insertData validItems) tbl' of
             Inl insertError \<Rightarrow> (Some insertError, tbl')
           | Inr tbl'' \<Rightarrow> (None, tbl'')))"

definition validCategories :: "CsvMSLItem list \<Rightarrow> string set" where
  "validCategories parsedItems = csv_category ` set (filter isValid parsedItems)"

definition kept :: "CsvMSLItem list \<Rightarrow> msl_table \<Rightarrow> msl_table" where
  "kept parsedItems tbl = filter (\<lambda>r. category r \<notin> validCategories parsedItems) tbl"

definition newRows :: "CsvMSLItem list \<Rightarrow> msl_table" where
  "newRows parsedItems = map toRow (insertData (filter isValid parsedItems))"

definition csvABC :: "CsvMSLItem list" where
  "csvABC =
     [\<lparr>csv_category = ''X'', csv_sku_code = ''A'', csv_product_name = ''a2'', csv_priority = Some 1,
        csv_notes = '''', isValid = True, error = ''''\<rparr>,
      \<lparr>csv_category = ''X'', csv_sku_code = ''A'', csv_product_name = ''a3'', csv_priority = Some 2,
        csv_notes = '''', isValid = False, error = ''Row 3: Duplicate SKU in same category''\<rparr>,
      \<lparr>csv_category = ''X'', csv_sku_code = ''D'', csv_product_name = ''d'', csv_priority = Some 2,
        csv_notes = ''new'', isValid = True, error = ''''\<rparr>]"

definition tableXY :: msl_table where
  "tableXY = mslABC @
     [\<lparr>category = ''Y'', sku_code = ''A'', product_name = ''a'', priority = 1, notes' = None\<rparr>]"

section \<open>The client of the data store, as the per-row uploads use it\<close>

text \<open>
  A request carries what the source passes to \<^verbatim>\<open>supabase.from(table)\<close>: for
  \<^verbatim>\<open>.update(patch).eq(column, value)...\<close> the patch and the equality filters, for
  \<^verbatim>\<open>.insert(row)\<close> the row; patch and row are object literals, kept as lists of column and
  value in the order written. The client is a parameter: \<open>exec\<close> answers a request in a
  state of the world and gives the next state. The answer is \<open>Success\<close> when the returned
  \<^verbatim>\<open>error\<close> is null, \<open>Failure\<close> when it is not, and \<open>Thrown\<close> when the call raises, which the
  \<^verbatim>\<open>catch\<close> of the loop body handles. \<open>now\<close> reads the clock (\<^verbatim>\<open>new Date().toISOString()\<close>).
  A number is sent as JSON, where \<^verbatim>\<open>NaN\<close> becomes \<^verbatim>\<open>null\<close>.
\<close>

datatype json = JString string | JNumber rat | JBool bool | JNull

datatype request =
  Update string "(string \<times> json) list" "(string \<times> json) list"
| Insert string "(string \<times> json) list"

datatype outcome = Success | Failure | Thrown

datatype action = INSERT | UPDATE

definition num :: "rat option \<Rightarrow> json" where
  "num x = (case x of None \<Rightarrow> JNull | Some r \<Rightarrow> JNumber r)"

definition orNull :: "string \<Rightarrow> json" where
  "orNull s = (if s \<noteq> [] then JString s else JNull)"

type_synonym counters = "nat \<times> nat \<times> nat"

section \<open>ProductCsvUpload: uploadProducts\<close>

text \<open>\<^verbatim>\<open>CsvProduct\<close>; \<^verbatim>\<open>price\<close> and \<^verbatim>\<open>discount\<close> are numbers, \<open>None\<close> standing for \<^verbatim>\<open>NaN\<close>.\<close>

record CsvProduct =
  p_sku_code :: string
  p_product_name :: string
  p_brand :: string
  p_category :: string
  p_price :: "rat option"
  p_discount :: "rat option"
  p_isValid :: bool
  p_error :: string
  p_action :: "action option"

definition productUpdate :: "('w \<Rightarrow> string) \<Rightarrow> CsvProduct \<Rightarrow> 'w \<Rightarrow> request" where
  "productUpdate now product w =
     Update ''products''
       [(''product_name'', JString (p_product_name product)),
        (''category'', JString (p_category product)),
        (''unit_price'', num (p_price product)),
        (''updated_at'', JString (now w))]
       [(''sku_code'', JString (p_sku_code product))]"

definition productInsert :: "CsvProduct \<Rightarrow> request" where
  "productInsert product =
     Insert ''products''
       [(''sku_code'', JString (p_sku_code product)),
        (''product_name'', JString (p_product_name product)),
        (''category'', JString (p_category product)),
        (''unit_price'', num (p_price product)),
        (''is_active'', JBool True)]"

fun productsLoop ::
  "(request \<Rightarrow> 'w \<Rightarrow> outcome \<times> 'w) \<Rightarrow> ('w \<Rightarrow> string) \<Rightarrow> CsvProduct list
     \<Rightarrow> counters \<times> 'w \<Rightarrow> counters \<times> 'w"
where
  "productsLoop exec now [] st = st"
| "productsLoop exec now (product # rest) ((addedCount, updatedCount, failedCount), w) =
     (if p_action product = Some UPDATE then
        (case exec (productUpdate now product w) w of
           (Success, w') \<Rightarrow>
             productsLoop exec now rest ((addedCount, updatedCount + 1, failedCount), w')
         | (Failure, w') \<Rightarrow>
             productsLoop exec now rest ((addedCount, updatedCount, failedCount + 1), w')
         | (Thrown, w') \<Rightarrow>
             productsLoop exec now rest ((addedCount, updatedCount, failedCount + 1), w'))
      else
        (case exec (productInsert product) w of
           (Success, w') \<Rightarrow>
             productsLoop exec now rest ((addedCount + 1, updatedCount, failedCount), w')
         | (Failure, w') \<Rightarrow>
             productsLoop exec now rest ((addedCount, updatedCount, failedCount + 1), w')
         | (Thrown, w') \<Rightarrow>
             productsLoop exec now rest ((addedCount, updatedCount, failedCount + 1), w')))"

definition uploadProducts ::
  "(request \<Rightarrow> 'w \<Rightarrow> outcome \<times> 'w) \<Rightarrow> ('w \<Rightarrow> string) \<Rightarrow> CsvProduct list \<Rightarrow> 'w
     \<Rightarrow> counters \<times> 'w"
where
  "uploadProducts exec now parsedProducts w =
     productsLoop exec now (filter p_isValid parsedProducts) ((0, 0, 0), w)"

section \<open>StoreCsvUpload: uploadStores\<close>

record CsvStore =
  kode_toko :: string
  nama_toko :: string
  kategori :: string
  alamat :: string
  google_maps :: string
  route :: string
  telepon :: string
  avg_order_value :: string
  frekuensi_order :: string
  kontak_utama :: string
  catatan :: string
  s_isValid :: bool
  s_error :: string
  s_action :: "action option"

text \<open>
  \<^verbatim>\<open>storeData\<close>, the object built for every row. \<^verbatim>\<open>parseFloat\<close> and the id of the user are
  parameters.
\<close>

definition storeData :: "(string \<Rightarrow> rat option) \<Rightarrow> string \<Rightarrow> CsvStore \<Rightarrow> (string \<times> json) list" where
  "storeData parseFloat userId store =
     [(''store_code'', JString (kode_toko store)),
      (''store_name'', JString (nama_toko store)),
      (''category'', JString (kategori store)),
      (''address'', JString (if alamat store \<noteq> [] then alamat store else [])),
      (''gmaps_link'', orNull (google_maps store)),
      (''route'', JString (if route store \<noteq> [] then route store else ''A'')),
      (''phone'', orNull (telepon store)),
      (''average_order_value'',
         (if avg_order_value store \<noteq> [] then num (parseFloat (avg_order_value store))
          else JNumber 0)),
      (''order_frequency'', orNull (frekuensi_order store)),
      (''key_contact'', orNull (kontak_utama store)),
      (''notes'', orNull (catatan store)),
      (''created_by'', JString userId)]"

definition field :: "(string \<times> json) list \<Rightarrow> string \<Rightarrow> string \<times> json" where
  "field obj name = (name, case map_of obj name of None \<Rightarrow> JNull | Some v \<Rightarrow> v)"

definition storeUpdate :: "(string \<Rightarrow> rat option) \<Rightarrow> string \<Rightarrow> CsvStore \<Rightarrow> request" where
  "storeUpdate parseFloat userId store =
     (let sd = storeData parseFloat userId store in
      Update ''stores''
        [field sd ''store_name'', field sd ''category'', field sd ''address'',
         field sd ''gmaps_link'', field sd ''route'', field sd ''phone'',
         field sd ''average_order_value'', field sd ''order_frequency'',
         field sd ''key_contact'', field sd ''notes'']
        [(''store_code'', JString (kode_toko store)), (''created_by'', JString userId)])"

definition storeInsert :: "(string \<Rightarrow> rat option) \<Rightarrow> string \<Rightarrow> CsvStore \<Rightarrow> request" where
  "storeInsert parseFloat userId store = Insert ''stores'' (storeData parseFloat userId store)"

fun storesLoop ::
  "(request \<Rightarrow> 'w \<Rightarrow> outcome \<times> 'w) \<Rightarrow> (string \<Rightarrow> rat option) \<Rightarrow> string \<Rightarrow> CsvStore list
     \<Rightarrow> counters \<times> 'w \<Rightarrow> counters \<times> 'w"
where
  "storesLoop exec parseFloat userId [] st = st"
| "storesLoop exec parseFloat userId (store # rest) ((addedCount, updatedCount, failedCount), w) =
     (if s_action store = Some UPDATE then
        (case exec (storeUpdate parseFloat userId store) w of
           (Success, w') \<Rightarrow>
             storesLoop exec parseFloat userId rest ((addedCount, updatedCount + 1, failedCount), w')
         | (Failure, w') \<Rightarrow>
             storesLoop exec parseFloat userId rest ((addedCount, updatedCount, failedCount + 1), w')
         | (Thrown, w') \<Rightarrow>
             storesLoop exec parseFloat userId rest ((addedCount, updatedCount, failedCount + 1), w'))
      else
        (case exec (storeInsert parseFloat userId store) w of
           (Success, w') \<Rightarrow>
             storesLoop exec parseFloat userId rest ((addedCount + 1, updatedCount, failedCount), w')
         | (Failure, w') \<Rightarrow>
             storesLoop exec parseFloat userId rest ((addedCount, updatedCount, failedCount + 1), w')
         | (Thrown, w') \<Rightarrow>
             storesLoop exec parseFloat userId rest ((addedCount, updatedCount, failedCount + 1), w')))"

definition uploadStores ::
  "(request \<Rightarrow> 'w \<Rightarrow> outcome \<times> 'w) \<Rightarrow> (string \<Rightarrow> rat option) \<Rightarrow> string \<Rightarrow> CsvStore list \<Rightarrow> 'w
     \<Rightarrow> counters \<times> 'w"
where
  "uploadStores exec parseFloat userId parsedStores w =
     storesLoop exec parseFloat userId (filter s_isValid parsedStores) ((0, 0, 0), w)"

section \<open>What the specification says of a per-row commit\<close>

text \<open>
  Every row is taken in turn: its request is issued, whatever became of the rows before it,
  and the answer is recorded. \<open>upsertTrace\<close> lists request and answer of each row,
  \<open>upsertWorld\<close> is the state after the last row. The request of a row is an update by key
  when the row is tagged \<open>UPDATE\<close> and an insert otherwise.
\<close>

fun upsertTrace ::
  "('r \<Rightarrow> 'w \<Rightarrow> request) \<Rightarrow> (request \<Rightarrow> 'w \<Rightarrow> outcome \<times> 'w) \<Rightarrow> 'r list \<Rightarrow> 'w
     \<Rightarrow> (request \<times> outcome) list"
where
  "upsertTrace req exec [] w = []"
| "upsertTrace req exec (r # rs) w =
     (req r w, fst (exec (req r w) w)) # upsertTrace req exec rs (snd (exec (req r w) w))"

fun upsertWorld ::
  "('r \<Rightarrow> 'w \<Rightarrow> request) \<Rightarrow> (request \<Rightarrow> 'w \<Rightarrow> outcome \<times> 'w) \<Rightarrow> 'r list \<Rightarrow> 'w \<Rightarrow> 'w"
where
  "upsertWorld req exec [] w = w"
| "upsertWorld req exec (r # rs) w = upsertWorld req exec rs (snd (exec (req r w) w))"

definition productRequest :: "('w \<Rightarrow> string) \<Rightarrow> CsvProduct \<Rightarrow> 'w \<Rightarrow> request" where
  "productRequest now product w =
     (if p_action product = Some UPDATE then productUpdate now product w
      else productInsert product)"

definition storeRequest :: "(string \<Rightarrow> rat option) \<Rightarrow> string \<Rightarrow> CsvStore \<Rightarrow> 'w \<Rightarrow> request" where
  "storeRequest parseFloat userId store w =
     (if s_action store = Some UPDATE then storeUpdate parseFloat userId store
      else storeInsert parseFloat userId store)"

definition isInsert :: "request \<Rightarrow> bool" where
  "isInsert q = (case q of Insert t row \<Rightarrow> True | Update t patch filters \<Rightarrow> False)"

definition added :: "(request \<times> outcome) list \<Rightarrow> nat" where
  "added tr = length (filter (\<lambda>(q, a). isInsert q \<and> a = Success) tr)"

definition updated :: "(request \<times> outcome) list \<Rightarrow> nat" where
  "updated tr = length (filter (\<lambda>(q, a). \<not> isInsert q \<and> a = Success) tr)"

definition failed :: "(request \<times> outcome) list \<Rightarrow> nat" where
  "failed tr = length (filter (\<lambda>(q, a). a \<noteq> Success) tr)"

section \<open>A table of products\<close>

text \<open>
  For what a commit leaves in the store, a table that behaves as \<^verbatim>\<open>products\<close> does: a row
  holds its columns with their values; an update patches the columns named in the patch, in
  every row that passes the filters; an insert adds the row, unless a row with the same
  \<^verbatim>\<open>sku_code\<close> exists, the column being unique (the seed data of the migration inserts with
  \<^verbatim>\<open>ON CONFLICT (sku_code)\<close>).
\<close>

type_synonym db_row = "(string \<times> json) list"

definition patchRow :: "(string \<times> json) list \<Rightarrow> db_row \<Rightarrow> db_row" where
  "patchRow patch row = foldl (\<lambda>r cv. AList.update (fst cv) (snd cv) r) row patch"

definition matches :: "(string \<times> json) list \<Rightarrow> db_row \<Rightarrow> bool" where
  "matches filters row = list_all (\<lambda>cv. map_of row (fst cv) = Some (snd cv)) filters"

fun dbExec :: "request \<Rightarrow> db_row list \<Rightarrow> outcome \<times> db_row list" where
  "dbExec (Update t patch filters) tbl =
     (Success, map (\<lambda>row. if matches filters row then patchRow patch row else row) tbl)"
| "dbExec (Insert t row) tbl =
     (if list_ex (\<lambda>r. map_of r ''sku_code'' = map_of row ''sku_code'') tbl
      then (Failure, tbl)
      else (Success, tbl @ [row]))"

definition columns :: "request \<Rightarrow> string list" where
  "columns q = (case q of Update t patch filters \<Rightarrow> map fst patch | Insert t row \<Rightarrow> map fst row)"

definition brandDiscount :: "db_row \<Rightarrow> json option \<times> json option" where
  "brandDiscount row = (map_of row ''brand'', map_of row ''discount'')"

definition productsTable :: "db_row list" where
  "productsTable =
     [[(''sku_code'', JString ''SKU001''), (''product_name'', JString ''Mascara''),
       (''category'', JString ''Makeup''), (''unit_price'', JNumber 185000),
       (''brand'', JString ''Old brand''), (''discount'', JNumber 5)]]"

definition csvProducts :: "CsvProduct list" where
  "csvProducts =
     [\<lparr>p_sku_code = ''SKU001'', p_product_name = ''Mascara 2'', p_brand = ''New brand'',
        p_category = ''Makeup'', p_price = Some 190000, p_discount = Some 10, p_isValid = True,
        p_error = [], p_action = Some UPDATE\<rparr>,
      \<lparr>p_sku_code = ''SKU001'', p_product_name = ''Stale'', p_brand = ''B'',
        p_category = ''Makeup'', p_price = Some 1, p_discount = Some 0, p_isValid = True,
        p_error = [], p_action = Some INSERT\<rparr>,
      \<lparr>p_sku_code = ''SKU009'', p_product_name = ''Broken'', p_brand = ''B'',
        p_category = ''Makeup'', p_price = None, p_discount = Some 0, p_isValid = False,
        p_error = ''Row 4: Invalid price'', p_action = Some INSERT\<rparr>,
      \<lparr>p_sku_code = ''SKU002'', p_product_name = ''Shampoo'', p_brand = ''Garnier'',
        p_category = ''Hair Care'', p_price = Some 45000, p_discount = Some 0, p_isValid = True,
        p_error = [], p_action = Some INSERT\<rparr>]"

definition clock :: "db_row list \<Rightarrow> string" where
  "clock tbl = ''2025-07-17T00:00:00.000Z''"

definition csvStores :: "CsvStore list" where
  "csvStores =
     [\<lparr>kode_toko = ''BC001'', nama_toko = ''Beauty Corner'', kategori = ''GT PROV'',
        alamat = [], google_maps = [], route = [], telepon = [], avg_order_value = ''0'',
        frekuensi_order = [], kontak_utama = [], catatan = [], s_isValid = True,
        s_error = [], s_action = Some UPDATE\<rparr>,
      \<lparr>kode_toko = ''WH002'', nama_toko = ''Wholesale Cantik'', kategori = ''GT Wholesale'',
        alamat = [], google_maps = [], route = ''B'', telepon = [], avg_order_value = ''0'',
        frekuensi_order = [], kontak_utama = [], catatan = [], s_isValid = True,
        s_error = [], s_action = Some INSERT\<rparr>]"

definition unreachable :: "request \<Rightarrow> nat \<Rightarrow> outcome \<times> nat" where
  "unreachable q n = (if n = 0 then (Thrown, Suc n) else (Failure, Suc n))"

definition noFloat :: "string \<Rightarrow> rat option" where
  "noFloat s = None"

section \<open>JavaScript strings\<close>

text \<open>
  A string is a list of code units; the model covers the code units below 256 (ASCII and
  Latin-1). \<^verbatim>\<open>trim\<close> removes white space and line terminators at both ends; below 256 these
  are tab, line feed, vertical tab, form feed, carriage return, space and the no-break space
  (code unit A0). \<^verbatim>\<open>split\<close> with a separator of one character gives the pieces between its
  occurrences, so at least one piece.
\<close>

definition isSpace :: "char \<Rightarrow> bool" where
  "isSpace c = (c \<in> set [CHR 0x09, CHR 0x0A, CHR 0x0B, CHR 0x0C, CHR 0x0D, CHR 0x20, CHR 0xA0])"

definition newline :: char where
  "newline = CHR 0x0A"

definition comma :: char where
  "comma = CHR '',''"

definition quote :: char where
  "quote = CHR 0x22"

definition trim :: "string \<Rightarrow> string" where
  "trim s = rev (dropWhile isSpace (rev (dropWhile isSpace s)))"

fun split :: "char \<Rightarrow> string \<Rightarrow> string list" where
  "split sep [] = [[]]"
| "split sep (c # cs) =
     (let pieces = split sep cs
      in if c = sep then [] # pieces else (c # hd pieces) # tl pieces)"

text \<open>
  \<^verbatim>\<open>toUpperCase\<close> maps the letters a to z and the lower-case letters of Latin-1 (code units
  E0 to FE without the division sign F7) to the letter 32 places before, and the sharp s
  (DF) to the two letters SS. The upper case of the micro sign (B5) and of the y with
  diaeresis (FF) lies above 255: the model leaves these two as they are, so that the result
  for a string that holds one of them differs from every string of ASCII characters, in the
  model as it does in JavaScript.
\<close>

definition lowerCase :: string where
  "lowerCase = ''abcdefghijklmnopqrstuvwxyz'' @
     [CHR 0xE0, CHR 0xE1, CHR 0xE2, CHR 0xE3, CHR 0xE4, CHR 0xE5, CHR 0xE6, CHR 0xE7,
      CHR 0xE8, CHR 0xE9, CHR 0xEA, CHR 0xEB, CHR 0xEC, CHR 0xED, CHR 0xEE, CHR 0xEF,
      CHR 0xF0, CHR 0xF1, CHR 0xF2, CHR 0xF3, CHR 0xF4, CHR 0xF5, CHR 0xF6,
      CHR 0xF8, CHR 0xF9, CHR 0xFA, CHR 0xFB, CHR 0xFC, CHR 0xFD, CHR 0xFE]"

definition upperCase :: string where
  "upperCase = ''ABCDEFGHIJKLMNOPQRSTUVWXYZ'' @
     [CHR 0xC0, CHR 0xC1, CHR 0xC2, CHR 0xC3, CHR 0xC4, CHR 0xC5, CHR 0xC6, CHR 0xC7,
      CHR 0xC8, CHR 0xC9, CHR 0xCA, CHR 0xCB, CHR 0xCC, CHR 0xCD, CHR 0xCE, CHR 0xCF,
      CHR 0xD0, CHR 0xD1, CHR 0xD2, CHR 0xD3, CHR 0xD4, CHR 0xD5, CHR 0xD6,
      CHR 0xD8, CHR 0xD9, CHR 0xDA, CHR 0xDB, CHR 0xDC, CHR 0xDD, CHR 0xDE]"

definition upperChar :: "char \<Rightarrow> string" where
  "upperChar c =
     (if c = CHR 0xDF then ''SS''
      else [case map_of (zip lowerCase upperCase) c of None \<Rightarrow> c | Some u \<Rightarrow> u])"

definition toUpperCase :: "string \<Rightarrow> string" where
  "toUpperCase s = concat (map upperChar s)"


text \<open>
  \<^verbatim>\<open>.replace(/^"|"$/g, '')\<close>: a double quote at the start is removed, and a double quote at
  the end of what is left is removed.
\<close>

definition stripQuotes :: "string \<Rightarrow> string" where
  "stripQuotes s =
     (let s1 = (case s of [] \<Rightarrow> [] | c # cs \<Rightarrow> if c = quote then cs else s)
      in if s1 \<noteq> [] \<and> last s1 = quote then butlast s1 else s1)"

text \<open>\<^verbatim>\<open>indexOf\<close> gives \<open>-1\<close> for a missing element; \<^verbatim>\<open>values[i] || ''\<close> is \<open>cellAt\<close>.\<close>

fun indexOf :: "'a list \<Rightarrow> 'a \<Rightarrow> int" where
  "indexOf [] x = - 1"
| "indexOf (y # ys) x = (if y = x then 0 else if indexOf ys x < 0 then - 1 else indexOf ys x + 1)"

definition cellAt :: "string list \<Rightarrow> int \<Rightarrow> string" where
  "cellAt values i = (if 0 \<le> i \<and> nat i < length values then values ! nat i else [])"

text \<open>An integer in a template literal is written in decimal.\<close>

definition digitChar :: "nat \<Rightarrow> char" where
  "digitChar d = ''0123456789'' ! d"

function showNat :: "nat \<Rightarrow> string" where
  "showNat n = (if n < 10 then [digitChar n] else showNat (n div 10) @ [digitChar (n mod 10)])"
  by pat_completeness auto
termination
  by (relation "measure (\<lambda>n. n)") auto

declare showNat.simps [simp del]

definition showInt :: "int \<Rightarrow> string" where
  "showInt i = (if i < 0 then CHR ''-'' # showNat (nat (- i)) else showNat (nat i))"

text \<open>
  \<^verbatim>\<open>parseInt\<close> without a radix: leading white space is skipped, a sign is read, the prefix
  \<^verbatim>\<open>0x\<close> selects radix 16, and the longest run of digits of the radix is the value;
  \<open>None\<close> is \<^verbatim>\<open>NaN\<close>. The value is exact here, where the source rounds to a double.
\<close>

definition digitValue :: "nat \<Rightarrow> char \<Rightarrow> nat option" where
  "digitValue radix c =
     (let n = (of_char c :: nat);
          v = (if 48 \<le> n \<and> n \<le> 57 then Some (n - 48)
               else if 97 \<le> n \<and> n \<le> 122 then Some (n - 87)
               else if 65 \<le> n \<and> n \<le> 90 then Some (n - 55)
               else None)
      in case v of None \<Rightarrow> None | Some d \<Rightarrow> if d < radix then Some d else None)"

definition parseDigits :: "nat \<Rightarrow> string \<Rightarrow> int option" where
  "parseDigits radix s =
     (let ds = takeWhile (\<lambda>c. digitValue radix c \<noteq> None) s
      in if ds = [] then None
         else Some (int (foldl (\<lambda>a c. a * radix + the (digitValue radix c)) 0 ds)))"

definition parseInt :: "string \<Rightarrow> int option" where
  "parseInt str =
     (let s = dropWhile isSpace str;
          sign = (case s of [] \<Rightarrow> (1 :: int) | c # cs \<Rightarrow> if c = CHR ''-'' then - 1 else 1);
          s1 = (case s of [] \<Rightarrow> [] | c # cs \<Rightarrow> if c = CHR ''-'' \<or> c = CHR ''+'' then cs else s);
          hex = (case s1 of a # b # cs \<Rightarrow> a = CHR ''0'' \<and> (b = CHR ''x'' \<or> b = CHR ''X'')
                 | _ \<Rightarrow> False);
          digits = (if hex then parseDigits 16 (drop 2 s1) else parseDigits 10 s1)
      in case digits of None \<Rightarrow> None | Some n \<Rightarrow> Some (sign * n))"

section \<open>Reading a CSV file\<close>

text \<open>
  The three uploads start alike (MSLCsvUpload.tsx lines 70 to 85, and the same lines of the
  product and the store upload), but for the list of required headers: the text is trimmed
  and split at line feeds; fewer than two lines stop the parse with an alert, and so does a
  header line in which a required column is missing. The alert is the error value here.
\<close>

datatype parse_error = EmptyInput | MissingColumns "string list"

definition readHeader :: "string list \<Rightarrow> string \<Rightarrow> parse_error + (string list \<times> string list)" where
  "readHeader requiredHeaders text =
     (let lines = split newline (trim text) in
      if length lines < 2 then Inl EmptyInput
      else
        let headers = map (\<lambda>h. toUpperCase (trim h)) (split comma (hd lines));
            missingHeaders = filter (\<lambda>header. header \<notin> set headers) requiredHeaders
        in if length missingHeaders > 0 then Inl (MissingColumns missingHeaders)
           else Inr (headers, lines))"

definition mslRequired :: "string list" where
  "mslRequired = [''CATEGORY'', ''SKU_CODE'', ''PRODUCT_NAME'', ''PRIORITY'']"

definition productRequired :: "string list" where
  "productRequired = [''SKU_CODE'', ''PRODUCT_NAME'', ''BRAND'', ''CATEGORY'', ''PRICE'']"

definition storeRequired :: "string list" where
  "storeRequired = [''KODE_TOKO'', ''NAMA_TOKO'', ''KATEGORI'']"

text \<open>
  The cells of a data line, as each upload reads them (MSLCsvUpload.tsx line 99, line 97 of
  the product upload, line 110 of the store upload). Of the loops over the data lines, the
  one of the MSL upload is modelled below; those of the product and the store upload are not.
\<close>

definition mslValues :: "string \<Rightarrow> string list" where
  "mslValues line = map (\<lambda>v. stripQuotes (trim v)) (split comma line)"

definition productValues :: "string \<Rightarrow> string list" where
  "productValues line = map (\<lambda>v. trim v) (split comma line)"

definition storeValues :: "string \<Rightarrow> string list" where
  "storeValues line = map (\<lambda>v. stripQuotes (trim v)) (split comma line)"

subsection \<open>MSLCsvUpload.tsx: parseCsv\<close>

record MSLIndices =
  categoryIndex :: int
  skuIndex :: int
  nameIndex :: int
  priorityIndex :: int
  notesIndex :: int

definition mslIndices :: "string list \<Rightarrow> MSLIndices" where
  "mslIndices headers =
     \<lparr>categoryIndex = indexOf headers ''CATEGORY'', skuIndex = indexOf headers ''SKU_CODE'',
      nameIndex = indexOf headers ''PRODUCT_NAME'', priorityIndex = indexOf headers ''PRIORITY'',
      notesIndex = indexOf headers ''NOTES''\<rparr>"

text \<open>
  The loop over the data lines; \<open>i\<close> is the index of the line, \<open>seenSkus\<close> the set of keys
  \<^verbatim>\<open>`${category}-${sku}`\<close> of the rows that passed the first two checks. \<open>rowNo\<close> is the text
  \<^verbatim>\<open>`Row ${i + 1}`\<close>.
\<close>

definition rowNo :: "nat \<Rightarrow> string" where
  "rowNo i = ''Row '' @ showNat (i + 1)"

fun mslRows :: "MSLIndices \<Rightarrow> string list \<Rightarrow> nat \<Rightarrow> string list \<Rightarrow> CsvMSLItem list" where
  "mslRows ix [] i seenSkus = []"
| "mslRows ix (line # rest) i seenSkus =
     (let values = mslValues line;
          cat = cellAt values (categoryIndex ix);
          sku = cellAt values (skuIndex ix);
          name = cellAt values (nameIndex ix);
          priorityStr = cellAt values (priorityIndex ix);
          notes = (if notesIndex ix \<ge> 0 then cellAt values (notesIndex ix) else []);
          missing = (cat = [] \<or> sku = [] \<or> name = [] \<or> priorityStr = []);
          duplicate = (\<not> missing \<and> set_has seenSkus (cat @ ''-'' @ sku));
          seenSkus' = (if \<not> missing \<and> \<not> duplicate then set_add (cat @ ''-'' @ sku) seenSkus
                       else seenSkus);
          isValid1 = (\<not> missing \<and> \<not> duplicate);
          error1 = (if missing
                    then rowNo i @ '': Missing required fields (CATEGORY, SKU_CODE, PRODUCT_NAME, PRIORITY)''
                    else if duplicate then rowNo i @ '': Duplicate SKU in same category''
                    else []);
          priority = parseInt priorityStr;
          badPriority = (isValid1 \<and> (case priority of None \<Rightarrow> True | Some p \<Rightarrow> p < 1))
      in \<lparr>csv_category = cat, csv_sku_code = sku, csv_product_name = name,
           csv_priority = priority, csv_notes = notes,
           isValid = (isValid1 \<and> \<not> badPriority),
           error = (if badPriority then rowNo i @ '': Invalid priority (must be positive integer)''
                    else error1)\<rparr>
         # mslRows ix rest (i + 1) seenSkus')"

definition parseCsv :: "string \<Rightarrow> parse_error + CsvMSLItem list" where
  "parseCsv text =
     (case readHeader mslRequired text of
        Inl e \<Rightarrow> Inl e
      | Inr (headers, lines) \<Rightarrow> Inr (mslRows (mslIndices headers) (tl lines) 1 []))"

subsection \<open>MSLManagement: exportMSL\<close>

definition exportLine :: "MSLItem \<Rightarrow> string" where
  "exportLine item =
     category item @ [comma] @ sku_code item @ [comma] @ [quote] @ product_name item @ [quote]
       @ [comma] @ showInt (priority item) @ [comma]
       @ [quote] @ (case notes' item of None \<Rightarrow> [] | Some n \<Rightarrow> n) @ [quote]"

fun joinLines :: "string list \<Rightarrow> string" where
  "joinLines [] = []"
| "joinLines [l] = l"
| "joinLines (l # ls) = l @ [newline] @ joinLines ls"

definition exportMSL :: "MSLItem list \<Rightarrow> string" where
  "exportMSL mslItems =
     joinLines (''CATEGORY,SKU_CODE,PRODUCT_NAME,PRIORITY,NOTES'' # map exportLine mslItems)"

definition validCount :: "CsvMSLItem list \<Rightarrow> nat" where
  "validCount parsedItems = length (filter isValid parsedItems)"

definition invalidCount :: "CsvMSLItem list \<Rightarrow> nat" where
  "invalidCount parsedItems = length (filter (\<lambda>item. \<not> isValid item) parsedItems)"

text \<open>A blank line holds white space only; \<open>nb\<close> counts the lines that are not blank.\<close>

definition blank :: "string \<Rightarrow> bool" where
  "blank l = (\<forall>c\<in>set l. isSpace c)"

definition nb :: "string \<Rightarrow> nat" where
  "nb s = length (filter (\<lambda>l. \<not> blank l) (split newline s))"

subsection \<open>What the specification says of a file that is rejected\<close>

text \<open>
  The non-empty lines of the input are its lines that are not empty once trimmed; the header
  line is the first line of the trimmed input, and its columns are its cells, trimmed and in
  upper case.
\<close>

definition nonEmptyLines :: "string \<Rightarrow> string list" where
  "nonEmptyLines text = filter (\<lambda>l. trim l \<noteq> []) (split newline text)"

definition headerLine :: "string \<Rightarrow> string" where
  "headerLine text = hd (split newline (trim text))"

definition headerColumns :: "string \<Rightarrow> string list" where
  "headerColumns text = map (\<lambda>h. toUpperCase (trim h)) (split comma (headerLine text))"

definition csvNoPriority :: string where
  "csvNoPriority = ''category, sku_code ,Product_Name'' @ [newline] @ ''X,A,a''"

definition csvBlankLines :: string where
  "csvBlankLines = [newline] @ ''CATEGORY,SKU_CODE,PRODUCT_NAME,PRIORITY'' @ [newline] @ ''  '' @ [newline]"

definition csvOneRow :: string where
  "csvOneRow = ''CATEGORY,SKU_CODE,PRODUCT_NAME,PRIORITY'' @ [newline] @ ''X,A,a,1''"

definition quotedProductLine :: string where
  "quotedProductLine =
     [quote] @ ''SKU001'' @ [quote] @ '','' @ [quote] @ ''Mascara'' @ [quote] @ '', Brand ,Makeup,185000''"

definition csvDup :: string where
  "csvDup = ''CATEGORY,SKU_CODE,PRODUCT_NAME,PRIORITY'' @ [newline]
            @ ''A,B-C,x,1'' @ [newline] @ ''A-B,C,y,1''"

definition csvNoBreakSpace :: string where
  "csvNoBreakSpace = ''CATEGORY,SKU_CODE,PRODUCT_NAME,PRIORITY'' @ [newline] @ [CHR 0xA0, CHR 0xA0]"

subsection \<open>Items that survive an export and a parse\<close>

text \<open>
  \<open>fields\<close> are the four texts of an item that the export writes as they are. \<open>readBack\<close> are
  the cells the parse reads from the exported line of an item when that line holds no line
  feed; with the exported header the parse takes the category, the SKU, the product name
  and the priority from the cells 0 to 3. \<open>readsBackValid\<close> says that these four cells pass
  the checks of the parse other than the duplicate check, and \<open>readKey\<close> is the text the
  duplicate check sees. For an item without a comma in its category, SKU and product name,
  \<open>decodedKey\<close> is that text.
\<close>

definition fields :: "MSLItem \<Rightarrow> string list" where
  "fields item =
     [category item, sku_code item, product_name item,
      (case notes' item of None \<Rightarrow> [] | Some n \<Rightarrow> n)]"

definition noLineFeed :: "MSLItem \<Rightarrow> bool" where
  "noLineFeed item = list_all (\<lambda>f. newline \<notin> set f) (fields item)"

definition readBack :: "MSLItem \<Rightarrow> string list" where
  "readBack item = mslValues (exportLine item)"

definition readsBackValid :: "MSLItem \<Rightarrow> bool" where
  "readsBackValid item =
     (let cells = readBack item
      in cellAt cells 0 \<noteq> [] \<and> cellAt cells 1 \<noteq> [] \<and> cellAt cells 2 \<noteq> []
         \<and> cellAt cells 3 \<noteq> []
         \<and> (case parseInt (cellAt cells 3) of None \<Rightarrow> False | Some p \<Rightarrow> 1 \<le> p))"

definition readKey :: "MSLItem \<Rightarrow> string" where
  "readKey item = cellAt (readBack item) 0 @ ''-'' @ cellAt (readBack item) 1"

definition commaFree :: "MSLItem \<Rightarrow> bool" where
  "commaFree item =
     (comma \<notin> set (category item) \<and> comma \<notin> set (sku_code item)
      \<and> comma \<notin> set (product_name item))"

definition decodedKey :: "MSLItem \<Rightarrow> string" where
  "decodedKey item =
     stripQuotes (trim (category item)) @ ''-'' @ stripQuotes (trim (sku_code item))"

text \<open>
  \<open>commaItems\<close> is one item with a comma in its product name. \<open>notesItems\<close> are two items,
  the first with a comma in its notes, the second with a comma in its product name that is
  followed by a number.
\<close>

definition commaItems :: "MSLItem list" where
  "commaItems =
     [\<lparr>category = ''X'', sku_code = ''A'', product_name = ''Foo, Bar'', priority = 1,
        notes' = None\<rparr>]"

definition notesItems :: "MSLItem list" where
  "notesItems =
     [\<lparr>category = ''X'', sku_code = ''A'', product_name = ''a'', priority = 1,
        notes' = Some ''n1, n2''\<rparr>,
      \<lparr>category = ''X'', sku_code = ''B'', product_name = ''Foo, 5'', priority = 2,
        notes' = None\<rparr>]"

definition exportedIndices :: MSLIndices where
  "exportedIndices = \<lparr>categoryIndex = 0, skuIndex = 1, nameIndex = 2, priorityIndex = 3,
                        notesIndex = 4\<rparr>"

definition exportHeader :: string where
  "exportHeader = ''CATEGORY,SKU_CODE,PRODUCT_NAME,PRIORITY,NOTES''"

definition concatKey :: "CsvMSLItem \<Rightarrow> string" where
  "concatKey item = csv_category item @ ''-'' @ csv_sku_code item"


section \<open>Properties of the achievement computation\<close>

lemma distinct_set_add: "distinct s \<Longrightarrow> distinct (set_add x s)"
  by (simp add: set_add_def)

lemma set_set_add: "set (set_add x s) = insert x (set s)"
  by (auto simp add: set_add_def)

lemma set_add_nonempty: "set_add x s \<noteq> []"
  by (auto simp add: set_add_def)

lemma addNumbers_Num: "addNumbers (Num x) (Num y) = Num (x + y)"
  by (simp add: addNumbers_def)

text \<open>
  Where no store names a member of \<^verbatim>\<open>Object.prototype\<close> as its category, no call raises,
  no \<^verbatim>\<open>NaN\<close> arises, and the loops add the share of every included store and count it.
\<close>

lemma getProperty_plain:
  "cat \<notin> set objectPrototype \<Longrightarrow>
   getProperty msl cat = (case map_of msl cat of None \<Rightarrow> Undefined | Some s \<Rightarrow> Own s)"
  by (simp add: getProperty_def split: option.splits)

lemma overviewLoop_plain:
  "\<forall>s\<in>set stores. st_category s \<notin> set objectPrototype \<Longrightarrow>
   overviewLoop msl q stores (Num t, c) =
     Inr (Num (t + sum_list (map (\<lambda>s. share msl (st_category s) (boughtSkusOverview (q (store_id s))))
                          (filter (\<lambda>s. included msl (st_category s)) stores))),
          c + length (filter (\<lambda>s. included msl (st_category s)) stores))"
proof (induction stores arbitrary: t c)
  case Nil
  then show ?case by simp
next
  case (Cons s stores)
  then have p: "getProperty msl (st_category s)
      = (case map_of msl (st_category s) of None \<Rightarrow> Undefined | Some x \<Rightarrow> Own x)"
    by (simp add: getProperty_plain)
  have ih: "\<And>t c. overviewLoop msl q stores (Num t, c) =
     Inr (Num (t + sum_list (map (\<lambda>s. share msl (st_category s) (boughtSkusOverview (q (store_id s))))
                          (filter (\<lambda>s. included msl (st_category s)) stores))),
          c + length (filter (\<lambda>s. included msl (st_category s)) stores))"
    using Cons by simp
  show ?case
  proof (cases "map_of msl (st_category s)")
    case None
    with p ih show ?thesis by (simp add: skipped_def included_def)
  next
    case (Some x)
    with p ih show ?thesis
      by (cases "x = []")
         (simp_all add: skipped_def included_def set_size_def storeAchievement_def share_def
            addNumbers_Num Let_def)
  qed
qed

lemma dailyLoop_plain:
  "\<forall>e\<in>set entries. fst (snd e) \<notin> set objectPrototype \<Longrightarrow>
   dailyLoop msl entries (Num t, c) =
     Inr (Num (t + sum_list (map (\<lambda>e. share msl (fst (snd e)) (boughtSkusDaily (snd (snd e))))
                          (filter (\<lambda>e. included msl (fst (snd e))) entries))),
          c + length (filter (\<lambda>e. included msl (fst (snd e))) entries))"
proof (induction entries arbitrary: t c)
  case Nil
  then show ?case by simp
next
  case (Cons e entries)
  obtain k cat items where e: "e = (k, cat, items)" by (cases e)
  from Cons.prems e have p: "getProperty msl cat
      = (case map_of msl cat of None \<Rightarrow> Undefined | Some x \<Rightarrow> Own x)"
    by (simp add: getProperty_plain)
  have ih: "\<And>t c. dailyLoop msl entries (Num t, c) =
     Inr (Num (t + sum_list (map (\<lambda>e. share msl (fst (snd e)) (boughtSkusDaily (snd (snd e))))
                          (filter (\<lambda>e. included msl (fst (snd e))) entries))),
          c + length (filter (\<lambda>e. included msl (fst (snd e))) entries))"
    using Cons by simp
  show ?case
  proof (cases "map_of msl cat")
    case None
    with p ih show ?thesis unfolding e by (simp add: skipped_def included_def)
  next
    case (Some x)
    with p ih show ?thesis unfolding e
      by (cases "x = []")
         (simp_all add: skipped_def included_def set_size_def storeAchievement_def share_def
            addNumbers_Num Let_def)
  qed
qed

lemma mslByCategory_mslABC: "mslByCategory (Some mslABC) = Inr [(''X'', [''A'', ''B'', ''C''])]"
  by (simp add: mslByCategory_def mslABC_def mslStep_def getProperty_def objectPrototype_def
        set_add_def)

lemma storeVisits_examples:
  "storeVisits [visitX, visitConstructor]
     = [(''n1-c1'', ''X'', [''A'', ''C'']), (''n4-c4'', ''constructor'', [])]"
  "storeVisits [visitConstructor] = [(''n4-c4'', ''constructor'', [])]"
  "storeVisits [visitX] = [(''n1-c1'', ''X'', [''A'', ''C''])]"
  "storeVisits [visitX, visitY] = [(''n1-c1'', ''X'', [''A'', ''C'']), (''n3-c3'', ''Y'', [''A''])]"
  "storeVisits [visitA_BC [''A'', ''C'']] = [(''A-B-C'', ''X'', [''A'', ''C''])]"
  "storeVisits [visitAB_C ''Y'' [], visitA_BC [''A'', ''C'']] = [(''A-B-C'', ''Y'', [''A'', ''C''])]"
  "storeVisits [visitAB_C ''X'' [''A''], visitA_BC []] = [(''A-B-C'', ''X'', [''A''])]"
  by (simp_all add: storeVisits_def storeVisitsStep_def visitX_def visitY_def
        visitConstructor_def visitAB_C_def visitA_BC_def)

text \<open>
  C1. The store s4 has the category \<^verbatim>\<open>constructor\<close>, for which \<open>mslByCategory\<close> has no entry.
  It is not skipped: alone, it makes the overall achievement \<^verbatim>\<open>NaN\<close>, in the overview and in
  the daily recap, where the specification gives 0; added to the stores of category X it
  turns their achievement, 100/3 in the overview and 200/3 in the recap, into \<^verbatim>\<open>NaN\<close>, where
  the specification has it change nothing. The store of category Y, which names no member of
  \<^verbatim>\<open>Object.prototype\<close>, is skipped in both. In the daily recap a visit to a store
  of category Y whose name and code give the key of a store of category X takes that store
  out of the aggregate: the achievement 200/3 becomes 0.
\<close>

theorem store_of_inherited_category_is_counted:
  "map_of [(''X'', [''A'', ''B'', ''C''])] (st_category storeConstructor) = None
   \<and> mslByCategory (Some mslABC) = Inr [(''X'', [''A'', ''B'', ''C''])]
   \<and> overviewAchievement (Some mslABC) (Some [storeConstructor]) ordersOfTheDay = Inr NaN
   \<and> overviewAchievement (Some mslABC) (Some storesX) ordersOfTheDay = Inr (Num (100 / 3))
   \<and> overviewAchievement (Some mslABC) (Some (storesX @ [storeY])) ordersOfTheDay
       = Inr (Num (100 / 3))
   \<and> overviewAchievement (Some mslABC) (Some (storesX @ [storeConstructor])) ordersOfTheDay
       = Inr NaN
   \<and> dailyAchievement (Some mslABC) [visitConstructor] = Inr NaN
   \<and> dailyAchievement (Some mslABC) [visitX] = Inr (Num (200 / 3))
   \<and> dailyAchievement (Some mslABC) [visitX, visitY] = Inr (Num (200 / 3))
   \<and> dailyAchievement (Some mslABC) [visitX, visitConstructor] = Inr NaN
   \<and> dailyAchievement (Some mslABC) [visitA_BC [''A'', ''C'']] = Inr (Num (200 / 3))
   \<and> dailyAchievement (Some mslABC) [visitAB_C ''Y'' [], visitA_BC [''A'', ''C'']] = Inr (Num 0)"
  by (simp add: overviewAchievement_def dailyAchievement_def mslByCategory_mslABC
        storeVisits_examples storesX_def storeY_def storeConstructor_def ordersOfTheDay_def
        getProperty_def objectPrototype_def skipped_def storeAchievement_def finish_def
        addNumbers_def boughtSkusOverview_def boughtSkusDaily_def
        set_add_def set_has_def set_size_def)

text \<open>
  C2. With the MSL A, B, C of category X, the stores s1 and s2 of that category have the
  achievements 200/3 and 0, and the overall achievement is their mean, 100/3. With the store
  s4 of category \<^verbatim>\<open>constructor\<close> beside them the overall achievement is \<^verbatim>\<open>NaN\<close>, not that mean;
  and with a row of category \<^verbatim>\<open>toString\<close> in \<^verbatim>\<open>msl_items\<close> the computation raises, in the
  overview and in the daily recap, and the achievement shown is 0. In the daily recap two
  stores of category X whose names and codes give the same key count as one store: one bought
  A and the other nothing, their shares are 100/3 and 0, and the recap gives 100/3, not the
  mean 50/3.
\<close>

theorem overall_is_not_the_mean_of_included_stores:
  "filter (\<lambda>s. included [(''X'', [''A'', ''B'', ''C''])] (st_category s)) (storesX @ [storeConstructor])
     = storesX
   \<and> map (\<lambda>s. share [(''X'', [''A'', ''B'', ''C''])] (st_category s)
                 (boughtSkusOverview (ordersOfTheDay (store_id s)))) storesX = [200 / 3, 0]
   \<and> overviewAchievement (Some mslABC) (Some storesX) ordersOfTheDay = Inr (Num (100 / 3))
   \<and> overviewAchievement (Some mslABC) (Some (storesX @ [storeConstructor])) ordersOfTheDay
       = Inr NaN
   \<and> mslByCategory (Some mslToString) = Inl TypeError
   \<and> overviewAchievement (Some mslToString) (Some storesX) ordersOfTheDay = Inl TypeError
   \<and> shown (overviewAchievement (Some mslToString) (Some storesX) ordersOfTheDay) = Num 0
   \<and> dailyAchievement (Some mslToString) [visitX] = Inl TypeError
   \<and> shown (dailyAchievement (Some mslToString) [visitX]) = Num 0
   \<and> dailyAchievement (Some mslABC) [visitAB_C ''X'' [''A''], visitA_BC []]
       = Inr (Num (100 / 3))"
proof -
  have t: "mslByCategory (Some mslToString) = Inl TypeError"
    by (simp add: mslByCategory_def mslToString_def mslABC_def mslStep_def getProperty_def
          objectPrototype_def set_add_def)
  have a: "filter (\<lambda>s. included [(''X'', [''A'', ''B'', ''C''])] (st_category s))
             (storesX @ [storeConstructor]) = storesX"
    by (simp add: included_def storesX_def storeConstructor_def)
  have b: "map (\<lambda>s. share [(''X'', [''A'', ''B'', ''C''])] (st_category s)
                 (boughtSkusOverview (ordersOfTheDay (store_id s)))) storesX = [200 / 3, 0]"
    by (simp add: share_def storesX_def ordersOfTheDay_def boughtSkusOverview_def
          set_add_def set_has_def)
  have c: "overviewAchievement (Some mslABC) (Some storesX) ordersOfTheDay = Inr (Num (100 / 3))"
    "overviewAchievement (Some mslABC) (Some (storesX @ [storeConstructor])) ordersOfTheDay
       = Inr NaN"
    by (simp_all add: overviewAchievement_def mslByCategory_mslABC
        storesX_def storeConstructor_def ordersOfTheDay_def
        getProperty_def objectPrototype_def skipped_def storeAchievement_def finish_def
        addNumbers_def boughtSkusOverview_def set_add_def set_has_def set_size_def)
  have d: "overviewAchievement (Some mslToString) (Some storesX) ordersOfTheDay = Inl TypeError"
    "dailyAchievement (Some mslToString) [visitX] = Inl TypeError"
    by (simp_all add: overviewAchievement_def dailyAchievement_def t)
  have e: "dailyAchievement (Some mslABC) [visitAB_C ''X'' [''A''], visitA_BC []]
       = Inr (Num (100 / 3))"
    by (simp add: dailyAchievement_def mslByCategory_mslABC storeVisits_examples
        getProperty_def objectPrototype_def skipped_def storeAchievement_def finish_def
        addNumbers_def boughtSkusDaily_def set_add_def set_has_def set_size_def)
  from t a b c d e show ?thesis by (simp add: shown_def)
qed

section \<open>Properties of the MSL replace commit\<close>

lemma set_categoriesToUpdate_aux:
  "set (foldl (\<lambda>s c. set_add c s) acc cs) = set acc \<union> set cs"
  by (induction cs arbitrary: acc) (auto simp: set_set_add)

lemma set_categoriesToUpdate: "set (categoriesToUpdate vs) = csv_category ` set vs"
  by (simp add: categoriesToUpdate_def set_categoriesToUpdate_aux)

lemma deleteLoop_eq: "deleteLoop cs tbl = (None, filter (\<lambda>r. category r \<notin> set cs) tbl)"
proof (induction cs arbitrary: tbl)
  case Nil
  then show ?case by simp
next
  case (Cons c cs)
  have "filter (\<lambda>r. category r \<notin> set cs) (filter (\<lambda>r. category r \<noteq> c) tbl)
        = filter (\<lambda>r. category r \<notin> set (c # cs)) tbl"
    by (induction tbl) auto
  with Cons show ?case by (simp add: deleteEqCategory_def)
qed

lemma category_toRow_insertData:
  "category ` set (map toRow (insertData vs)) = csv_category ` set vs"
  by (auto simp: insertData_def toRow_def image_iff)

lemma uploadMSL_eq:
  "uploadMSL ps tbl =
     (case insertRows (insertData (filter isValid ps)) (kept ps tbl) of
        Inl e \<Rightarrow> (Some e, kept ps tbl)
      | Inr t \<Rightarrow> (None, t))"
  by (simp add: uploadMSL_def deleteLoop_eq set_categoriesToUpdate kept_def validCategories_def
           split: sum.splits)

lemma insertRows_cases:
  "insertRows d tbl = Inr (tbl @ map toRow d) \<or> (\<exists>e. insertRows d tbl = Inl e)"
  by (simp add: insertRows_def)

lemma kept_idem: "kept ps (kept ps tbl) = kept ps tbl"
  by (simp add: kept_def)

lemma kept_newRows: "kept ps (newRows ps) = []"
  unfolding kept_def newRows_def validCategories_def
  using category_toRow_insertData[of "filter isValid ps"]
  by (auto simp: filter_empty_conv)

lemma kept_append_new: "kept ps (kept ps tbl @ newRows ps) = kept ps tbl"
proof -
  have "kept ps (kept ps tbl @ newRows ps) = kept ps (kept ps tbl) @ kept ps (newRows ps)"
    by (simp add: kept_def)
  then show ?thesis by (simp add: kept_idem kept_newRows)
qed


lemma uploadMSL_cases:
  "uploadMSL ps tbl = (None, kept ps tbl @ newRows ps)
   \<or> (\<exists>e. uploadMSL ps tbl = (Some e, kept ps tbl)
          \<and> insertRows (insertData (filter isValid ps)) (kept ps tbl) = Inl e)"
  using insertRows_cases[of "insertData (filter isValid ps)" "kept ps tbl"]
  by (auto simp: uploadMSL_eq newRows_def)

lemma uploadMSL_ok_iff:
  "uploadMSL ps tbl = (None, kept ps tbl @ newRows ps)
   \<longleftrightarrow> insertRows (insertData (filter isValid ps)) (kept ps tbl) = Inr (kept ps tbl @ newRows ps)"
  using insertRows_cases[of "insertData (filter isValid ps)" "kept ps tbl"]
  by (auto simp: uploadMSL_eq newRows_def)

lemma uploadMSL_twice: "uploadMSL ps (snd (uploadMSL ps tbl)) = uploadMSL ps tbl"
proof -
  consider (ok) "uploadMSL ps tbl = (None, kept ps tbl @ newRows ps)"
    | (err) e where "uploadMSL ps tbl = (Some e, kept ps tbl)"
        "insertRows (insertData (filter isValid ps)) (kept ps tbl) = Inl e"
    using uploadMSL_cases by blast
  then show ?thesis
  proof cases
    case ok
    then have "insertRows (insertData (filter isValid ps)) (kept ps tbl) = Inr (kept ps tbl @ newRows ps)"
      by (simp add: uploadMSL_ok_iff)
    then have "uploadMSL ps (kept ps tbl @ newRows ps) = (None, kept ps tbl @ newRows ps)"
      by (simp add: uploadMSL_eq kept_append_new)
    with ok show ?thesis by simp
  next
    case err
    then have "uploadMSL ps (kept ps tbl) = (Some e, kept ps tbl)"
      by (simp add: uploadMSL_eq kept_idem)
    with err show ?thesis by simp
  qed
qed

lemma distinct_kept: "distinct (map mslKey tbl) \<Longrightarrow> distinct (map mslKey (kept ps tbl))"
  by (simp add: kept_def distinct_map_filter)

lemma insertRows_Inr_distinct:
  "insertRows d tbl = Inr t \<Longrightarrow> distinct (map mslKey t)"
  by (auto simp: insertRows_def split: if_splits)

lemma uploadMSL_unique:
  assumes "distinct (map mslKey tbl)"
  shows "distinct (map mslKey (snd (uploadMSL ps tbl)))"
proof -
  consider (ok) "uploadMSL ps tbl = (None, kept ps tbl @ newRows ps)"
    | (err) e where "uploadMSL ps tbl = (Some e, kept ps tbl)"
    using uploadMSL_cases by blast
  then show ?thesis
  proof cases
    case ok
    then have "insertRows (insertData (filter isValid ps)) (kept ps tbl) = Inr (kept ps tbl @ newRows ps)"
      by (simp add: uploadMSL_ok_iff)
    then have "distinct (map mslKey (kept ps tbl @ newRows ps))"
      by (rule insertRows_Inr_distinct)
    with ok show ?thesis by simp
  next
    case err
    with assms show ?thesis by (simp add: distinct_kept)
  qed
qed

lemma mslKey_newRows:
  "map mslKey (newRows ps) = map (\<lambda>i. (csv_category i, csv_sku_code i)) (filter isValid ps)"
  by (simp add: newRows_def insertData_def toRow_def mslKey_def comp_def)

lemma keys_disjoint:
  "set (map mslKey (kept ps tbl)) \<inter> set (map mslKey (newRows ps)) = {}"
proof (rule ccontr)
  assume "set (map mslKey (kept ps tbl)) \<inter> set (map mslKey (newRows ps)) \<noteq> {}"
  then obtain k where k1: "k \<in> set (map mslKey (kept ps tbl))"
    and k2: "k \<in> set (map mslKey (newRows ps))" by blast
  from k1 obtain r where "r \<in> set (kept ps tbl)" "k = mslKey r" by auto
  then have "fst k \<notin> validCategories ps" by (simp add: kept_def mslKey_def)
  moreover from k2 have "fst k \<in> validCategories ps"
    by (auto simp: mslKey_newRows validCategories_def)
  ultimately show False by simp
qed

lemma uploadMSL_succeeds:
  assumes t: "distinct (map mslKey tbl)"
    and d: "distinct (map (\<lambda>i. (csv_category i, csv_sku_code i)) (filter isValid ps))"
    and p: "\<forall>i\<in>set (filter isValid ps). \<exists>p. csv_priority i = Some p \<and> - (2 ^ 31) \<le> p \<and> p < 2 ^ 31"
  shows "uploadMSL ps tbl = (None, kept ps tbl @ newRows ps)"
proof -
  let ?d = "insertData (filter isValid ps)"
  have 1: "\<not> list_ex (\<lambda>d. ins_priority d = None) ?d"
    using p by (auto simp: list_ex_iff insertData_def)
  have 2: "\<not> list_ex (\<lambda>d. case ins_priority d of None \<Rightarrow> False
                               | Some p \<Rightarrow> p < - (2 ^ 31) \<or> 2 ^ 31 \<le> p) ?d"
    using p by (fastforce simp: list_ex_iff insertData_def split: option.splits)
  have "distinct (map mslKey (newRows ps))"
    using d by (simp only: mslKey_newRows)
  then have "distinct (map mslKey (kept ps tbl) @ map mslKey (newRows ps))"
    using distinct_kept[OF t, of ps] keys_disjoint[of ps tbl]
    by (simp only: distinct_append)
  then have 3: "distinct (map mslKey (kept ps tbl @ map toRow ?d))"
    by (simp add: newRows_def)
  from 1 2 3 have "insertRows ?d (kept ps tbl) = Inr (kept ps tbl @ newRows ps)"
    by (simp add: insertRows_def newRows_def)
  then show ?thesis by (simp add: uploadMSL_ok_iff)
qed

lemma filter_kept_other:
  "c \<notin> validCategories ps \<Longrightarrow> filter (\<lambda>r. category r = c) (kept ps tbl) = filter (\<lambda>r. category r = c) tbl"
  unfolding kept_def by (induction tbl) auto

lemma filter_newRows_other:
  "c \<notin> validCategories ps \<Longrightarrow> filter (\<lambda>r. category r = c) (newRows ps) = []"
  using category_toRow_insertData[of "filter isValid ps"]
  by (auto simp: filter_empty_conv newRows_def validCategories_def)


text \<open>
  C4. Uploading the same parsed rows a second time, right after the first upload, gives the
  same outcome and leaves the table as the first upload left it: the second upload deletes the
  rows the first one inserted and inserts them again. The table keeps its keys unique, and a
  successful upload leaves the rows of the untouched categories followed by the new rows.
  An upload of rows with distinct keys and priorities in the range of the column succeeds.
\<close>

theorem uploadMSL_idempotent:
  "uploadMSL ps (snd (uploadMSL ps tbl)) = uploadMSL ps tbl
   \<and> (distinct (map mslKey tbl) \<longrightarrow> distinct (map mslKey (snd (uploadMSL ps tbl))))
   \<and> (fst (uploadMSL ps tbl) = None \<longrightarrow> snd (uploadMSL ps tbl) = kept ps tbl @ newRows ps)
   \<and> (distinct (map mslKey tbl)
        \<and> distinct (map (\<lambda>i. (csv_category i, csv_sku_code i)) (filter isValid ps))
        \<and> (\<forall>i\<in>set (filter isValid ps).
              \<exists>p. csv_priority i = Some p \<and> - (2 ^ 31) \<le> p \<and> p < 2 ^ 31)
      \<longrightarrow> fst (uploadMSL ps tbl) = None)"
proof (intro conjI impI)
  show "uploadMSL ps (snd (uploadMSL ps tbl)) = uploadMSL ps tbl"
    by (rule uploadMSL_twice)
  show "distinct (map mslKey (snd (uploadMSL ps tbl)))" if "distinct (map mslKey tbl)"
    using that by (rule uploadMSL_unique)
  show "snd (uploadMSL ps tbl) = kept ps tbl @ newRows ps" if "fst (uploadMSL ps tbl) = None"
    using that uploadMSL_cases[of ps tbl] by auto
  show "fst (uploadMSL ps tbl) = None"
    if "distinct (map mslKey tbl)
        \<and> distinct (map (\<lambda>i. (csv_category i, csv_sku_code i)) (filter isValid ps))
        \<and> (\<forall>i\<in>set (filter isValid ps).
              \<exists>p. csv_priority i = Some p \<and> - (2 ^ 31) \<le> p \<and> p < 2 ^ 31)"
    using that uploadMSL_succeeds[of tbl ps] by simp
qed

lemma kept_csvABC: "kept csvABC tableXY =
    [\<lparr>category = ''Y'', sku_code = ''A'', product_name = ''a'', priority = 1, notes' = None\<rparr>]"
  by (simp add: kept_def validCategories_def csvABC_def tableXY_def mslABC_def)

lemma newRows_csvABC: "newRows csvABC =
    [\<lparr>category = ''X'', sku_code = ''A'', product_name = ''a2'', priority = 1, notes' = None\<rparr>,
     \<lparr>category = ''X'', sku_code = ''D'', product_name = ''d'', priority = 2, notes' = Some ''new''\<rparr>]"
  by (simp add: newRows_def insertData_def toRow_def csvABC_def)

theorem uploadMSL_idempotent_witness:
  "distinct (map mslKey tableXY)
   \<and> fst (uploadMSL csvABC tableXY) = None
   \<and> snd (uploadMSL csvABC tableXY) =
      [\<lparr>category = ''Y'', sku_code = ''A'', product_name = ''a'', priority = 1, notes' = None\<rparr>,
       \<lparr>category = ''X'', sku_code = ''A'', product_name = ''a2'', priority = 1, notes' = None\<rparr>,
       \<lparr>category = ''X'', sku_code = ''D'', product_name = ''d'', priority = 2, notes' = Some ''new''\<rparr>]
   \<and> uploadMSL csvABC (snd (uploadMSL csvABC tableXY)) = uploadMSL csvABC tableXY
   \<and> distinct (map mslKey (snd (uploadMSL csvABC tableXY)))"
proof -
  have t: "distinct (map mslKey tableXY)"
    by (simp add: tableXY_def mslABC_def mslKey_def)
  have d: "distinct (map (\<lambda>i. (csv_category i, csv_sku_code i)) (filter isValid csvABC))"
    by (simp add: csvABC_def)
  have p: "\<forall>i\<in>set (filter isValid csvABC).
             \<exists>p. csv_priority i = Some p \<and> - (2 ^ 31) \<le> p \<and> p < 2 ^ 31"
    by (simp add: csvABC_def)
  note inst = uploadMSL_idempotent[of csvABC tableXY]
  have ok: "fst (uploadMSL csvABC tableXY) = None"
    using t d p inst by blast
  have sn: "snd (uploadMSL csvABC tableXY) = kept csvABC tableXY @ newRows csvABC"
    using ok inst by blast
  have tw: "uploadMSL csvABC (snd (uploadMSL csvABC tableXY)) = uploadMSL csvABC tableXY"
    using inst by blast
  have un: "distinct (map mslKey (snd (uploadMSL csvABC tableXY)))"
    using t inst by blast
  from sn have sn': "snd (uploadMSL csvABC tableXY) =
      [\<lparr>category = ''Y'', sku_code = ''A'', product_name = ''a'', priority = 1, notes' = None\<rparr>,
       \<lparr>category = ''X'', sku_code = ''A'', product_name = ''a2'', priority = 1, notes' = None\<rparr>,
       \<lparr>category = ''X'', sku_code = ''D'', product_name = ''d'', priority = 2, notes' = Some ''new''\<rparr>]"
    by (simp add: kept_csvABC newRows_csvABC)
  from t ok sn' tw un show ?thesis by blast
qed

text \<open>
  C5. The rows of a category that no valid row of the upload names are the same after the
  upload as before it, whether the upload succeeds or not; the categories for which a delete
  is issued are those of the valid rows and no others.
\<close>

theorem uploadMSL_frame:
  "(c \<notin> validCategories ps \<longrightarrow>
      filter (\<lambda>r. category r = c) (snd (uploadMSL ps tbl)) = filter (\<lambda>r. category r = c) tbl)
   \<and> set (categoriesToUpdate (filter isValid ps)) = validCategories ps
   \<and> (c \<notin> set cs \<longrightarrow>
      filter (\<lambda>r. category r = c) (snd (deleteLoop cs tbl)) = filter (\<lambda>r. category r = c) tbl)"
proof (intro conjI impI)
  assume c: "c \<notin> validCategories ps"
  consider (ok) "uploadMSL ps tbl = (None, kept ps tbl @ newRows ps)"
    | (err) e where "uploadMSL ps tbl = (Some e, kept ps tbl)"
    using uploadMSL_cases by blast
  then show "filter (\<lambda>r. category r = c) (snd (uploadMSL ps tbl)) = filter (\<lambda>r. category r = c) tbl"
  proof cases
    case ok
    with c show ?thesis by (simp add: filter_kept_other filter_newRows_other)
  next
    case err
    with c show ?thesis by (simp add: filter_kept_other)
  qed
next
  show "set (categoriesToUpdate (filter isValid ps)) = validCategories ps"
    by (simp add: set_categoriesToUpdate validCategories_def)
next
  assume "c \<notin> set cs"
  then show "filter (\<lambda>r. category r = c) (snd (deleteLoop cs tbl)) = filter (\<lambda>r. category r = c) tbl"
    unfolding deleteLoop_eq by (induction tbl) auto
qed

theorem uploadMSL_frame_witness:
  "''Y'' \<notin> validCategories csvABC
   \<and> filter (\<lambda>r. category r = ''Y'') (snd (uploadMSL csvABC tableXY))
       = [\<lparr>category = ''Y'', sku_code = ''A'', product_name = ''a'', priority = 1, notes' = None\<rparr>]
   \<and> filter (\<lambda>r. category r = ''Y'') tableXY
       = [\<lparr>category = ''Y'', sku_code = ''A'', product_name = ''a'', priority = 1, notes' = None\<rparr>]
   \<and> set (categoriesToUpdate (filter isValid csvABC)) = {''X''}
   \<and> ''Y'' \<notin> set [''X'']
   \<and> filter (\<lambda>r. category r = ''Y'') (snd (deleteLoop [''X''] tableXY))
       = filter (\<lambda>r. category r = ''Y'') tableXY"
proof -
  have v: "validCategories csvABC = {''X''}"
    by (auto simp add: validCategories_def csvABC_def)
  have f: "filter (\<lambda>r. category r = ''Y'') tableXY
       = [\<lparr>category = ''Y'', sku_code = ''A'', product_name = ''a'', priority = 1, notes' = None\<rparr>]"
    by (simp add: tableXY_def mslABC_def)
  note inst = uploadMSL_frame[of "''Y''" csvABC tableXY "[''X'']"]
  have n: "''Y'' \<notin> validCategories csvABC" by (simp add: v)
  have 1: "filter (\<lambda>r. category r = ''Y'') (snd (uploadMSL csvABC tableXY))
       = filter (\<lambda>r. category r = ''Y'') tableXY"
    using n inst by blast
  have 2: "set (categoriesToUpdate (filter isValid csvABC)) = {''X''}"
    using inst v by simp
  have m: "''Y'' \<notin> set [''X'']" by simp
  have 3: "filter (\<lambda>r. category r = ''Y'') (snd (deleteLoop [''X''] tableXY))
       = filter (\<lambda>r. category r = ''Y'') tableXY"
    using m inst by blast
  from n 1 2 m 3 f show ?thesis by (simp only: simp_thms)
qed

section \<open>Properties of the per-row commits\<close>

lemma isInsert_simps [simp]:
  "\<not> isInsert (productUpdate now p w)" "isInsert (productInsert p)"
  "\<not> isInsert (storeUpdate pf u s)" "isInsert (storeInsert pf u s)"
  by (simp_all add: isInsert_def productUpdate_def productInsert_def storeUpdate_def
        storeInsert_def Let_def)

lemma productsLoop_trace:
  "productsLoop exec now rows ((a, u, f), w) =
     ((a + added (upsertTrace (productRequest now) exec rows w),
       u + updated (upsertTrace (productRequest now) exec rows w),
       f + failed (upsertTrace (productRequest now) exec rows w)),
      upsertWorld (productRequest now) exec rows w)"
proof (induction rows arbitrary: a u f w)
  case Nil
  then show ?case by (simp add: added_def updated_def failed_def)
next
  case (Cons p rows)
  obtain ans w' where e: "exec (productRequest now p w) w = (ans, w')"
    by (cases "exec (productRequest now p w) w")
  show ?case
  proof (cases "p_action p = Some UPDATE")
    case True
    then have q: "productRequest now p w = productUpdate now p w"
      by (simp add: productRequest_def)
    with e True Cons.IH show ?thesis
      by (cases ans) (simp_all add: added_def updated_def failed_def)
  next
    case False
    then have q: "productRequest now p w = productInsert p"
      by (simp add: productRequest_def)
    with e False Cons.IH show ?thesis
      by (cases ans) (simp_all add: added_def updated_def failed_def)
  qed
qed

lemma storesLoop_trace:
  "storesLoop exec pf uid rows ((a, u, f), w) =
     ((a + added (upsertTrace (storeRequest pf uid) exec rows w),
       u + updated (upsertTrace (storeRequest pf uid) exec rows w),
       f + failed (upsertTrace (storeRequest pf uid) exec rows w)),
      upsertWorld (storeRequest pf uid) exec rows w)"
proof (induction rows arbitrary: a u f w)
  case Nil
  then show ?case by (simp add: added_def updated_def failed_def)
next
  case (Cons p rows)
  obtain ans w' where e: "exec (storeRequest pf uid p w) w = (ans, w')"
    by (cases "exec (storeRequest pf uid p w) w")
  show ?case
  proof (cases "s_action p = Some UPDATE")
    case True
    then have q: "storeRequest pf uid p w = storeUpdate pf uid p"
      by (simp add: storeRequest_def)
    with e True Cons.IH show ?thesis
      by (cases ans) (simp_all add: added_def updated_def failed_def)
  next
    case False
    then have q: "storeRequest pf uid p w = storeInsert pf uid p"
      by (simp add: storeRequest_def)
    with e False Cons.IH show ?thesis
      by (cases ans) (simp_all add: added_def updated_def failed_def)
  qed
qed

lemma length_upsertTrace: "length (upsertTrace req exec rows w) = length rows"
  by (induction rows arbitrary: w) simp_all

lemma counts_total: "added tr + updated tr + failed tr = length tr"
proof (induction tr)
  case Nil
  then show ?case by (simp add: added_def updated_def failed_def)
next
  case (Cons x tr)
  obtain q a where x: "x = (q, a)" by (cases x)
  from Cons show ?case
    unfolding x added_def updated_def failed_def by (cases a; cases "isInsert q") simp_all
qed


lemma upsertTrace_shape:
  "(\<And>r w. P r (req r w)) \<Longrightarrow>
   list_all2 (\<lambda>r qa. P r (fst qa)) rows (upsertTrace req exec rows w)"
  by (induction rows arbitrary: w) simp_all

lemma upsertTrace_map:
  "(\<And>r w. req (f r) w = req r w) \<Longrightarrow>
   upsertTrace req exec (map f rows) w = upsertTrace req exec rows w"
  by (induction rows arbitrary: w) simp_all

lemma upsertWorld_map:
  "(\<And>r w. req (f r) w = req r w) \<Longrightarrow>
   upsertWorld req exec (map f rows) w = upsertWorld req exec rows w"
  by (induction rows arbitrary: w) simp_all

lemma uploadProducts_trace:
  "uploadProducts exec now ps w =
     ((added (upsertTrace (productRequest now) exec (filter p_isValid ps) w),
       updated (upsertTrace (productRequest now) exec (filter p_isValid ps) w),
       failed (upsertTrace (productRequest now) exec (filter p_isValid ps) w)),
      upsertWorld (productRequest now) exec (filter p_isValid ps) w)"
  by (simp add: uploadProducts_def productsLoop_trace del: productsLoop.simps)

lemma uploadStores_trace:
  "uploadStores exec pf uid ss w =
     ((added (upsertTrace (storeRequest pf uid) exec (filter s_isValid ss) w),
       updated (upsertTrace (storeRequest pf uid) exec (filter s_isValid ss) w),
       failed (upsertTrace (storeRequest pf uid) exec (filter s_isValid ss) w)),
      upsertWorld (storeRequest pf uid) exec (filter s_isValid ss) w)"
  by (simp add: uploadStores_def storesLoop_trace del: storesLoop.simps)

lemma productRequest_shape:
  "if p_action r = Some UPDATE
   then (\<exists>patch. productRequest now r w = Update ''products'' patch [(''sku_code'', JString (p_sku_code r))])
   else (\<exists>row. productRequest now r w = Insert ''products'' row)"
  by (simp add: productRequest_def productUpdate_def productInsert_def)

lemma storeRequest_shape:
  "if s_action r = Some UPDATE
   then (\<exists>patch. storeRequest pf uid r w = Update ''stores'' patch
           [(''store_code'', JString (kode_toko r)), (''created_by'', JString uid)])
   else (\<exists>row. storeRequest pf uid r w = Insert ''stores'' row)"
  by (simp add: storeRequest_def storeUpdate_def storeInsert_def Let_def)

text \<open>
  C8. Both per-row uploads take every valid row in turn, whatever the answers to the rows
  before it: a row tagged \<open>UPDATE\<close> is sent as an update filtered by its key, any other row as
  an insert; the three counters are the successful inserts, the successful updates and the
  requests that failed or raised, and they add up to the number of valid rows.
\<close>

theorem upsert_continues_past_failures:
  "uploadProducts exec now ps w =
     ((added (upsertTrace (productRequest now) exec (filter p_isValid ps) w),
       updated (upsertTrace (productRequest now) exec (filter p_isValid ps) w),
       failed (upsertTrace (productRequest now) exec (filter p_isValid ps) w)),
      upsertWorld (productRequest now) exec (filter p_isValid ps) w)
   \<and> list_all2 (\<lambda>r qa.
         if p_action r = Some UPDATE
         then (\<exists>patch. fst qa = Update ''products'' patch [(''sku_code'', JString (p_sku_code r))])
         else (\<exists>row. fst qa = Insert ''products'' row))
       (filter p_isValid ps) (upsertTrace (productRequest now) exec (filter p_isValid ps) w)
   \<and> fst (fst (uploadProducts exec now ps w)) + fst (snd (fst (uploadProducts exec now ps w)))
       + snd (snd (fst (uploadProducts exec now ps w))) = length (filter p_isValid ps)
   \<and> uploadStores exec' parseFloat userId ss w' =
     ((added (upsertTrace (storeRequest parseFloat userId) exec' (filter s_isValid ss) w'),
       updated (upsertTrace (storeRequest parseFloat userId) exec' (filter s_isValid ss) w'),
       failed (upsertTrace (storeRequest parseFloat userId) exec' (filter s_isValid ss) w')),
      upsertWorld (storeRequest parseFloat userId) exec' (filter s_isValid ss) w')
   \<and> list_all2 (\<lambda>r qa.
         if s_action r = Some UPDATE
         then (\<exists>patch. fst qa = Update ''stores'' patch
                 [(''store_code'', JString (kode_toko r)), (''created_by'', JString userId)])
         else (\<exists>row. fst qa = Insert ''stores'' row))
       (filter s_isValid ss) (upsertTrace (storeRequest parseFloat userId) exec' (filter s_isValid ss) w')
   \<and> fst (fst (uploadStores exec' parseFloat userId ss w'))
       + fst (snd (fst (uploadStores exec' parseFloat userId ss w')))
       + snd (snd (fst (uploadStores exec' parseFloat userId ss w'))) = length (filter s_isValid ss)"
proof (intro conjI)
  show "uploadProducts exec now ps w =
     ((added (upsertTrace (productRequest now) exec (filter p_isValid ps) w),
       updated (upsertTrace (productRequest now) exec (filter p_isValid ps) w),
       failed (upsertTrace (productRequest now) exec (filter p_isValid ps) w)),
      upsertWorld (productRequest now) exec (filter p_isValid ps) w)"
    by (rule uploadProducts_trace)
  show "list_all2 (\<lambda>r qa.
         if p_action r = Some UPDATE
         then (\<exists>patch. fst qa = Update ''products'' patch [(''sku_code'', JString (p_sku_code r))])
         else (\<exists>row. fst qa = Insert ''products'' row))
       (filter p_isValid ps) (upsertTrace (productRequest now) exec (filter p_isValid ps) w)"
    by (rule upsertTrace_shape) (rule productRequest_shape)
  show "fst (fst (uploadProducts exec now ps w)) + fst (snd (fst (uploadProducts exec now ps w)))
       + snd (snd (fst (uploadProducts exec now ps w))) = length (filter p_isValid ps)"
    by (simp add: uploadProducts_trace counts_total length_upsertTrace)
  show "uploadStores exec' parseFloat userId ss w' =
     ((added (upsertTrace (storeRequest parseFloat userId) exec' (filter s_isValid ss) w'),
       updated (upsertTrace (storeRequest parseFloat userId) exec' (filter s_isValid ss) w'),
       failed (upsertTrace (storeRequest parseFloat userId) exec' (filter s_isValid ss) w')),
      upsertWorld (storeRequest parseFloat userId) exec' (filter s_isValid ss) w')"
    by (rule uploadStores_trace)
  show "list_all2 (\<lambda>r qa.
         if s_action r = Some UPDATE
         then (\<exists>patch. fst qa = Update ''stores'' patch
                 [(''store_code'', JString (kode_toko r)), (''created_by'', JString userId)])
         else (\<exists>row. fst qa = Insert ''stores'' row))
       (filter s_isValid ss) (upsertTrace (storeRequest parseFloat userId) exec' (filter s_isValid ss) w')"
    by (rule upsertTrace_shape) (rule storeRequest_shape)
  show "fst (fst (uploadStores exec' parseFloat userId ss w'))
       + fst (snd (fst (uploadStores exec' parseFloat userId ss w')))
       + snd (snd (fst (uploadStores exec' parseFloat userId ss w'))) = length (filter s_isValid ss)"
    by (simp add: uploadStores_trace counts_total length_upsertTrace)
qed



lemma trace_csvProducts:
  "map snd (upsertTrace (productRequest clock) dbExec (filter p_isValid csvProducts) productsTable)
     = [Success, Failure, Success]"
  by (simp add: csvProducts_def productsTable_def productRequest_def productUpdate_def
        productInsert_def matches_def patchRow_def)

theorem upsert_continues_past_failures_witness:
  "fst (uploadProducts dbExec clock csvProducts productsTable) = (1, 1, 1)
   \<and> length (filter p_isValid csvProducts) = 3
   \<and> fst (uploadStores unreachable noFloat ''u1'' csvStores 0) = (0, 0, 2)
   \<and> length (filter s_isValid csvStores) = 2"
proof -
  note inst = upsert_continues_past_failures[of dbExec clock csvProducts productsTable
      unreachable noFloat "''u1''" csvStores 0]
  have p: "fst (uploadProducts dbExec clock csvProducts productsTable) = (1, 1, 1)"
    using inst
    by (simp add: csvProducts_def productsTable_def productRequest_def productUpdate_def
        productInsert_def matches_def patchRow_def added_def updated_def failed_def isInsert_def)
  have s: "fst (uploadStores unreachable noFloat ''u1'' csvStores 0) = (0, 0, 2)"
    using inst
    by (simp add: csvStores_def storeRequest_def storeUpdate_def storeInsert_def unreachable_def
        added_def updated_def failed_def isInsert_def Let_def)
  from p s show ?thesis by (simp add: csvProducts_def csvStores_def)
qed

lemma productRequest_ignores_brand_discount:
  "productRequest now (p\<lparr>p_brand := b, p_discount := d\<rparr>) w = productRequest now p w"
  by (simp add: productRequest_def productUpdate_def productInsert_def)

lemma columns_productRequest:
  "columns (productRequest now p w) =
     (if p_action p = Some UPDATE
      then [''product_name'', ''category'', ''unit_price'', ''updated_at'']
      else [''sku_code'', ''product_name'', ''category'', ''unit_price'', ''is_active''])"
  by (simp add: columns_def productRequest_def productUpdate_def productInsert_def)

lemma upsertTrace_all:
  "(\<And>r w. P (req r w)) \<Longrightarrow> \<forall>qa\<in>set (upsertTrace req exec rows w). P (fst qa)"
  by (induction rows arbitrary: w) simp_all

lemma map_of_update_other: "c \<noteq> k \<Longrightarrow> map_of (AList.update k v r) c = map_of r c"
  by (simp add: update_conv')

lemma map_of_patchRow:
  "c \<notin> fst ` set patch \<Longrightarrow> map_of (patchRow patch row) c = map_of row c"
  unfolding patchRow_def
  by (induction patch arbitrary: row) (auto simp: map_of_update_other)

lemma brandDiscount_patchRow:
  "''brand'' \<notin> fst ` set patch \<Longrightarrow> ''discount'' \<notin> fst ` set patch \<Longrightarrow>
   brandDiscount (patchRow patch row) = brandDiscount row"
  by (simp add: brandDiscount_def map_of_patchRow)

lemma dbExec_productRequest:
  "\<exists>n. map brandDiscount (snd (dbExec (productRequest now p w) tbl))
         = map brandDiscount tbl @ replicate n (None, None)"
proof (cases "p_action p = Some UPDATE")
  case True
  have "map brandDiscount (snd (dbExec (productRequest now p w) tbl)) = map brandDiscount tbl"
    using True
    by (simp add: productRequest_def productUpdate_def brandDiscount_patchRow)
  then have "map brandDiscount (snd (dbExec (productRequest now p w) tbl))
         = map brandDiscount tbl @ replicate 0 (None, None)" by simp
  then show ?thesis by blast
next
  case False
  have "map brandDiscount (snd (dbExec (productRequest now p w) tbl)) = map brandDiscount tbl
        \<or> map brandDiscount (snd (dbExec (productRequest now p w) tbl))
            = map brandDiscount tbl @ replicate 1 (None, None)"
    using False
    by (simp add: productRequest_def productInsert_def brandDiscount_def)
  then show ?thesis by (metis append_Nil2 replicate_0)
qed

lemma upsertWorld_brandDiscount:
  "\<exists>n. map brandDiscount (upsertWorld (productRequest now) dbExec rows tbl)
         = map brandDiscount tbl @ replicate n (None, None)"
proof (induction rows arbitrary: tbl)
  case Nil
  have "map brandDiscount tbl = map brandDiscount tbl @ replicate 0 (None, None)" by simp
  then show ?case by (simp only: upsertWorld.simps) blast
next
  case (Cons p rows)
  let ?t = "snd (dbExec (productRequest now p tbl) tbl)"
  obtain n where n: "map brandDiscount ?t = map brandDiscount tbl @ replicate n (None, None)"
    using dbExec_productRequest[of now p tbl tbl] by blast
  obtain m where m: "map brandDiscount (upsertWorld (productRequest now) dbExec rows ?t)
         = map brandDiscount ?t @ replicate m (None, None)"
    using Cons.IH[of ?t] by blast
  have "map brandDiscount (upsertWorld (productRequest now) dbExec (p # rows) tbl)
         = map brandDiscount tbl @ replicate (n + m) (None, None)"
    using n m by (simp add: replicate_add)
  then show ?case by blast
qed


text \<open>
  C10. Whatever BRAND and DISCOUNT a parsed product carries, the upload sends the same
  requests and ends in the same state. An update names the columns \<^verbatim>\<open>product_name\<close>,
  \<^verbatim>\<open>category\<close>, \<^verbatim>\<open>unit_price\<close>, \<^verbatim>\<open>updated_at\<close> and an insert the columns \<^verbatim>\<open>sku_code\<close>,
  \<^verbatim>\<open>product_name\<close>, \<^verbatim>\<open>category\<close>, \<^verbatim>\<open>unit_price\<close>, \<^verbatim>\<open>is_active\<close>. In the table of products,
  every row that was there keeps what it had as brand and discount, and every row that the
  upload adds has neither.
\<close>

theorem brand_and_discount_never_written:
  "uploadProducts exec now (map (\<lambda>p. p\<lparr>p_brand := b p, p_discount := d p\<rparr>) ps) w
     = uploadProducts exec now ps w
   \<and> (\<forall>qa\<in>set (upsertTrace (productRequest now) exec (filter p_isValid ps) w).
         columns (fst qa) = [''product_name'', ''category'', ''unit_price'', ''updated_at'']
         \<or> columns (fst qa) = [''sku_code'', ''product_name'', ''category'', ''unit_price'', ''is_active''])
   \<and> map brandDiscount (snd (uploadProducts dbExec clk ps tbl))
       = map brandDiscount tbl
           @ replicate (length (snd (uploadProducts dbExec clk ps tbl)) - length tbl) (None, None)"
proof (intro conjI)
  let ?f = "\<lambda>p. p\<lparr>p_brand := b p, p_discount := d p\<rparr>"
  have v: "filter p_isValid (map ?f ps) = map ?f (filter p_isValid ps)"
    by (induction ps) simp_all
  have r: "\<And>r w. productRequest now (?f r) w = productRequest now r w"
    by (rule productRequest_ignores_brand_discount)
  show "uploadProducts exec now (map ?f ps) w = uploadProducts exec now ps w"
    unfolding uploadProducts_trace v
    by (simp only: upsertTrace_map[of "productRequest now" ?f, OF r]
          upsertWorld_map[of "productRequest now" ?f, OF r])
next
  have "\<And>r w. columns (productRequest now r w) = [''product_name'', ''category'', ''unit_price'', ''updated_at'']
         \<or> columns (productRequest now r w) = [''sku_code'', ''product_name'', ''category'', ''unit_price'', ''is_active'']"
    by (simp add: columns_productRequest)
  then show "\<forall>qa\<in>set (upsertTrace (productRequest now) exec (filter p_isValid ps) w).
         columns (fst qa) = [''product_name'', ''category'', ''unit_price'', ''updated_at'']
         \<or> columns (fst qa) = [''sku_code'', ''product_name'', ''category'', ''unit_price'', ''is_active'']"
    by (rule upsertTrace_all)
next
  let ?t = "snd (uploadProducts dbExec clk ps tbl)"
  obtain n where n: "map brandDiscount ?t = map brandDiscount tbl @ replicate n (None, None)"
    using upsertWorld_brandDiscount[of clk "filter p_isValid ps" tbl]
    by (auto simp add: uploadProducts_trace)
  then have "length (map brandDiscount ?t) = length (map brandDiscount tbl @ replicate n (None :: json option, None :: json option))"
    by simp
  then have "n = length ?t - length tbl" by simp
  with n show "map brandDiscount ?t
       = map brandDiscount tbl @ replicate (length ?t - length tbl) (None, None)"
    by simp
qed

theorem brand_and_discount_never_written_witness:
  "snd (uploadProducts dbExec clock csvProducts productsTable) =
     [[(''sku_code'', JString ''SKU001''), (''product_name'', JString ''Mascara 2''),
       (''category'', JString ''Makeup''), (''unit_price'', JNumber 190000),
       (''brand'', JString ''Old brand''), (''discount'', JNumber 5),
       (''updated_at'', JString ''2025-07-17T00:00:00.000Z'')],
      [(''sku_code'', JString ''SKU002''), (''product_name'', JString ''Shampoo''),
       (''category'', JString ''Hair Care''), (''unit_price'', JNumber 45000),
       (''is_active'', JBool True)]]
   \<and> map brandDiscount (snd (uploadProducts dbExec clock csvProducts productsTable))
       = [(Some (JString ''Old brand''), Some (JNumber 5)), (None, None)]
   \<and> map columns (map fst (upsertTrace (productRequest clock) dbExec (filter p_isValid csvProducts) productsTable))
       = [[''product_name'', ''category'', ''unit_price'', ''updated_at''],
          [''sku_code'', ''product_name'', ''category'', ''unit_price'', ''is_active''],
          [''sku_code'', ''product_name'', ''category'', ''unit_price'', ''is_active'']]
   \<and> uploadProducts dbExec clock (map (\<lambda>p. p\<lparr>p_brand := ''none'', p_discount := None\<rparr>) csvProducts) productsTable
       = uploadProducts dbExec clock csvProducts productsTable"
proof -
  note inst = brand_and_discount_never_written[where exec = dbExec and now = clock
      and b = "\<lambda>p. ''none''" and d = "\<lambda>p. None" and ps = csvProducts
      and w = productsTable and clk = clock and tbl = productsTable]
  have t: "snd (uploadProducts dbExec clock csvProducts productsTable) =
     [[(''sku_code'', JString ''SKU001''), (''product_name'', JString ''Mascara 2''),
       (''category'', JString ''Makeup''), (''unit_price'', JNumber 190000),
       (''brand'', JString ''Old brand''), (''discount'', JNumber 5),
       (''updated_at'', JString ''2025-07-17T00:00:00.000Z'')],
      [(''sku_code'', JString ''SKU002''), (''product_name'', JString ''Shampoo''),
       (''category'', JString ''Hair Care''), (''unit_price'', JNumber 45000),
       (''is_active'', JBool True)]]"
    by (simp add: uploadProducts_def csvProducts_def productsTable_def productUpdate_def
        productInsert_def matches_def patchRow_def clock_def num_def)
  have b: "map brandDiscount (snd (uploadProducts dbExec clock csvProducts productsTable))
       = [(Some (JString ''Old brand''), Some (JNumber 5)), (None, None)]"
    using inst by (simp add: t) (simp add: productsTable_def brandDiscount_def)
  have c: "map columns (map fst (upsertTrace (productRequest clock) dbExec (filter p_isValid csvProducts) productsTable))
       = [[''product_name'', ''category'', ''unit_price'', ''updated_at''],
          [''sku_code'', ''product_name'', ''category'', ''unit_price'', ''is_active''],
          [''sku_code'', ''product_name'', ''category'', ''unit_price'', ''is_active'']]"
    by (simp add: csvProducts_def columns_productRequest)
  from inst t b c show ?thesis by blast
qed



section \<open>Properties of the CSV parse\<close>

lemma split_nonempty: "split sep s \<noteq> []"
  by (induction s) (simp_all add: Let_def)

lemma split_no_sep: "sep \<notin> set s \<Longrightarrow> split sep s = [s]"
  by (induction s) (auto simp add: Let_def)

lemma split_append_sep: "sep \<notin> set a \<Longrightarrow> split sep (a @ sep # b) = a # split sep b"
  by (induction a) (auto simp add: Let_def)

lemma length_split: "length (split sep s) = Suc (length (filter (\<lambda>c. c = sep) s))"
  by (induction s) (simp_all add: Let_def split_nonempty)

lemma split_Cons_sep: "split sep (sep # s) = [] # split sep s"
  by (simp add: Let_def)

lemma split_Cons_other: "c \<noteq> sep \<Longrightarrow> split sep (c # s) = (c # hd (split sep s)) # tl (split sep s)"
  by (simp add: Let_def)

lemma split_snoc_sep: "split sep (s @ [sep]) = split sep s @ [[]]"
proof (induction s)
  case Nil
  then show ?case by (simp add: Let_def)
next
  case (Cons c s)
  then show ?case
    using split_nonempty[of sep s] by (cases "split sep s") (simp_all add: Let_def)
qed

lemma split_snoc_other:
  "c \<noteq> sep \<Longrightarrow> split sep (s @ [c]) = butlast (split sep s) @ [last (split sep s) @ [c]]"
proof (induction s)
  case Nil
  then show ?case by (simp add: Let_def)
next
  case (Cons d s)
  obtain p ps where p: "split sep s = p # ps"
    using split_nonempty[of sep s] by (cases "split sep s") auto
  show ?case
  proof (cases ps)
    case Nil
    with Cons p show ?thesis by (simp add: Let_def)
  next
    case (Cons q qs)
    with Cons.IH Cons.prems p show ?thesis by (simp add: Let_def)
  qed
qed

lemma trim_Nil_iff: "trim s = [] \<longleftrightarrow> (\<forall>c\<in>set s. isSpace c)"
proof (cases "dropWhile isSpace s")
  case Nil
  then have a: "\<forall>c\<in>set s. isSpace c" by simp
  have "trim s = []" unfolding trim_def Nil by simp
  with a show ?thesis by simp
next
  case (Cons d ds)
  then have d: "\<not> isSpace d" by (metis hd_dropWhile list.sel(1) list.distinct(1))
  have "d \<in> set s" using Cons by (metis list.set_intros(1) set_dropWhileD)
  with d have r: "\<not> (\<forall>c\<in>set s. isSpace c)" by blast
  have "trim s \<noteq> []" unfolding trim_def Cons using d by auto
  with r show ?thesis by simp
qed

lemma trim_id: "s \<noteq> [] \<Longrightarrow> \<not> isSpace (hd s) \<Longrightarrow> \<not> isSpace (last s) \<Longrightarrow> trim s = s"
proof -
  assume s: "s \<noteq> []" and h: "\<not> isSpace (hd s)" and l: "\<not> isSpace (last s)"
  from s h have 1: "dropWhile isSpace s = s" by (cases s) simp_all
  from s l have "dropWhile isSpace (rev s) = rev s"
    by (cases "rev s") (simp_all add: last_rev[symmetric] hd_rev)
  with 1 show ?thesis by (simp add: trim_def)
qed

lemma isSpace_newline: "isSpace newline"
  by (simp add: isSpace_def newline_def)

lemma nb_Cons_space: "isSpace c \<Longrightarrow> nb (c # s) = nb s"
proof (cases "c = newline")
  case True
  then show ?thesis by (simp add: nb_def Let_def blank_def)
next
  case False
  assume c: "isSpace c"
  obtain p ps where p: "split newline s = p # ps"
    using split_nonempty[of newline s] by (cases "split newline s") auto
  with False c show ?thesis by (simp add: nb_def Let_def blank_def)
qed

lemma blank_snoc: "isSpace c \<Longrightarrow> blank (l @ [c]) = blank l"
  by (simp add: blank_def)

lemma nb_snoc_space: "isSpace c \<Longrightarrow> nb (s @ [c]) = nb s"
proof (cases "c = newline")
  case True
  then show ?thesis by (simp add: nb_def split_snoc_sep blank_def)
next
  case False
  assume c: "isSpace c"
  have ne: "split newline s \<noteq> []" by (rule split_nonempty)
  have "length (filter (\<lambda>l. \<not> blank l) (butlast (split newline s) @ [last (split newline s) @ [c]]))
      = length (filter (\<lambda>l. \<not> blank l) (butlast (split newline s) @ [last (split newline s)]))"
    using c by (simp add: blank_snoc)
  also have "\<dots> = length (filter (\<lambda>l. \<not> blank l) (split newline s))"
    using ne by simp
  finally show ?thesis using False by (simp add: nb_def split_snoc_other)
qed

lemma nb_dropWhile: "nb (dropWhile isSpace s) = nb s"
  by (induction s) (simp_all add: nb_Cons_space)

lemma nb_append_spaces: "\<forall>c\<in>set w. isSpace c \<Longrightarrow> nb (s @ w) = nb s"
proof (induction w rule: rev_induct)
  case Nil
  then show ?case by simp
next
  case (snoc c w)
  then have "nb ((s @ w) @ [c]) = nb (s @ w)" by (intro nb_snoc_space) simp
  with snoc show ?case by simp
qed

lemma rev_dropWhile_rev: "\<exists>w. s = rev (dropWhile P (rev s)) @ w \<and> (\<forall>c\<in>set w. P c)"
proof -
  have "rev s = takeWhile P (rev s) @ dropWhile P (rev s)" by simp
  then have "s = rev (dropWhile P (rev s)) @ rev (takeWhile P (rev s))"
    by (metis rev_append rev_rev_ident)
  moreover have "\<forall>c\<in>set (rev (takeWhile P (rev s))). P c"
    by (auto dest: set_takeWhileD)
  ultimately show ?thesis by blast
qed

lemma nb_trim: "nb (trim s) = nb s"
proof -
  let ?d = "dropWhile isSpace s"
  obtain w where w: "?d = rev (dropWhile isSpace (rev ?d)) @ w" "\<forall>c\<in>set w. isSpace c"
    using rev_dropWhile_rev[of ?d isSpace] by blast
  have "nb (trim s) = nb (trim s @ w)" using w(2) by (simp add: nb_append_spaces)
  also have "trim s @ w = ?d" using w(1) by (simp add: trim_def)
  finally show ?thesis by (simp add: nb_dropWhile)
qed

lemma trim_ends:
  assumes "trim s \<noteq> []"
  shows "\<not> isSpace (hd (trim s)) \<and> \<not> isSpace (last (trim s))"
proof -
  let ?d = "dropWhile isSpace s"
  let ?e = "dropWhile isSpace (rev ?d)"
  have t: "trim s = rev ?e" by (simp add: trim_def)
  with assms have e: "?e \<noteq> []" by simp
  then have d: "?d \<noteq> []" by (metis dropWhile.simps(1) rev.simps(1))
  have 1: "\<not> isSpace (hd ?e)" using e by (rule hd_dropWhile)
  have "last ?e = last (rev ?d)"
    using e by (metis last_appendR takeWhile_dropWhile_id)
  also have "\<dots> = hd ?d" using d by (simp add: last_rev)
  finally have "last ?e = hd ?d" .
  moreover have "\<not> isSpace (hd ?d)" using d by (rule hd_dropWhile)
  ultimately have 2: "\<not> isSpace (last ?e)" by simp
  from e 1 2 show ?thesis unfolding t by (simp add: hd_rev last_rev)
qed

lemma last_split:
  assumes "s \<noteq> []" and "last s \<noteq> sep"
  shows "last (split sep s) \<noteq> [] \<and> last (last (split sep s)) = last s"
proof -
  from assms(1) obtain t c where s: "s = t @ [c]" by (cases s rule: rev_cases) auto
  with assms(2) have "c \<noteq> sep" by simp
  then have "split sep s = butlast (split sep t) @ [last (split sep t) @ [c]]"
    unfolding s by (rule split_snoc_other)
  then show ?thesis by (simp add: s)
qed

lemma nb_no_newline: "newline \<notin> set m \<Longrightarrow> nb m \<le> 1"
  by (simp add: nb_def split_no_sep)

lemma nb_with_newline:
  assumes nl: "newline \<in> set m" and h: "\<not> isSpace (hd m)" and l: "\<not> isSpace (last m)"
  shows "2 \<le> nb m"
proof -
  from nl obtain a b where m: "m = a @ newline # b" and a: "newline \<notin> set a"
    by (auto dest: split_list_first)
  have sp: "split newline m = a # split newline b"
    unfolding m using a by (rule split_append_sep)
  have "a \<noteq> []" using h m isSpace_newline by (cases a) auto
  then have "hd a = hd m" by (simp add: m)
  moreover have "hd a \<in> set a" using \<open>a \<noteq> []\<close> by simp
  ultimately have na: "\<not> blank a" using h by (auto simp: blank_def)
  have "b \<noteq> []" using l m isSpace_newline by (cases b) auto
  then have lb: "last b = last m" by (simp add: m)
  with l isSpace_newline have "last b \<noteq> newline" by auto
  with \<open>b \<noteq> []\<close> have q: "last (split newline b) \<noteq> []"
      "last (last (split newline b)) = last b"
    using last_split[of b newline] by simp_all
  then have "last b \<in> set (last (split newline b))" by (metis last_in_set)
  with l lb have nlast: "\<not> blank (last (split newline b))" by (auto simp: blank_def)
  have "last (split newline b) \<in> set (split newline b)"
    using split_nonempty by (rule last_in_set)
  with nlast have "filter (\<lambda>l. \<not> blank l) (split newline b) \<noteq> []"
    by (auto simp: filter_empty_conv)
  then have "1 \<le> length (filter (\<lambda>l. \<not> blank l) (split newline b))"
    by (cases "filter (\<lambda>l. \<not> blank l) (split newline b)") simp_all
  with na show ?thesis by (simp add: nb_def sp)
qed

lemma lines_lt_2_iff: "length (split newline (trim text)) < 2 \<longleftrightarrow> nb text < 2"
proof (cases "newline \<in> set (trim text)")
  case True
  then have ne: "trim text \<noteq> []" by auto
  from True have "filter (\<lambda>c. c = newline) (trim text) \<noteq> []"
    by (auto simp: filter_empty_conv)
  then have "2 \<le> length (split newline (trim text))"
    by (cases "filter (\<lambda>c. c = newline) (trim text)") (simp_all add: length_split)
  moreover have "2 \<le> nb (trim text)"
    using True trim_ends[OF ne] by (intro nb_with_newline) simp_all
  ultimately show ?thesis by (simp add: nb_trim)
next
  case False
  then have "length (split newline (trim text)) = 1" by (simp add: split_no_sep)
  moreover from False have "nb (trim text) \<le> 1" by (rule nb_no_newline)
  ultimately show ?thesis by (simp add: nb_trim)
qed

lemma nb_nonEmptyLines: "nb text = length (nonEmptyLines text)"
  by (simp add: nb_def nonEmptyLines_def trim_Nil_iff blank_def)

lemma readHeader_cases:
  "readHeader req text =
     (if length (nonEmptyLines text) < 2 then Inl EmptyInput
      else if filter (\<lambda>h. h \<notin> set (headerColumns text)) req \<noteq> []
      then Inl (MissingColumns (filter (\<lambda>h. h \<notin> set (headerColumns text)) req))
      else Inr (headerColumns text, split newline (trim text)))"
  using lines_lt_2_iff[of "text"]
  by (simp add: readHeader_def Let_def nb_nonEmptyLines headerColumns_def headerLine_def)

lemma parseCsv_Inl_iff: "parseCsv text = Inl e \<longleftrightarrow> readHeader mslRequired text = Inl e"
  by (cases "readHeader mslRequired text") (auto simp: parseCsv_def split: prod.splits)

lemma parseCsv_Inr_iff:
  "(\<exists>rows. parseCsv text = Inr rows) \<longleftrightarrow> (\<exists>ok. readHeader mslRequired text = Inr ok)"
  by (cases "readHeader mslRequired text") (auto simp: parseCsv_def split: prod.splits)

lemma filter_missing_Nil_iff:
  "filter (\<lambda>h. h \<notin> set cols) req = [] \<longleftrightarrow> set req \<subseteq> set cols"
  by (auto simp: filter_empty_conv)

text \<open>
  C6. Each of the three uploads rejects the whole input in two cases and no other: with the
  empty-input error exactly when the input has fewer than two lines that are non-empty after
  trimming, and otherwise with the error that lists the missing columns, all of them and in
  the order of the required list, exactly when a required column is not among the columns of
  the header line. A line of white space only, no-break spaces included, is an empty line.
\<close>

theorem structural_failure_exactly:
  assumes "req \<in> set [mslRequired, productRequired, storeRequired]"
  shows "(readHeader req text = Inl EmptyInput \<longleftrightarrow> length (nonEmptyLines text) < 2)
   \<and> (readHeader req text = Inl (MissingColumns m) \<longleftrightarrow>
        2 \<le> length (nonEmptyLines text) \<and> m \<noteq> []
        \<and> m = filter (\<lambda>h. h \<notin> set (headerColumns text)) req)
   \<and> ((\<exists>ok. readHeader req text = Inr ok) \<longleftrightarrow>
        2 \<le> length (nonEmptyLines text) \<and> set req \<subseteq> set (headerColumns text))
   \<and> (parseCsv text = Inl e \<longleftrightarrow> readHeader mslRequired text = Inl e)
   \<and> ((\<exists>rows. parseCsv text = Inr rows) \<longleftrightarrow>
        2 \<le> length (nonEmptyLines text) \<and> set mslRequired \<subseteq> set (headerColumns text))"
proof -
  have r: "\<And>req. (\<exists>ok. readHeader req text = Inr ok) \<longleftrightarrow>
        2 \<le> length (nonEmptyLines text) \<and> set req \<subseteq> set (headerColumns text)"
    by (auto simp add: readHeader_cases filter_missing_Nil_iff[symmetric])
  have a: "readHeader req text = Inl EmptyInput \<longleftrightarrow> length (nonEmptyLines text) < 2"
    by (simp add: readHeader_cases)
  have b: "readHeader req text = Inl (MissingColumns m) \<longleftrightarrow>
        2 \<le> length (nonEmptyLines text) \<and> m \<noteq> []
        \<and> m = filter (\<lambda>h. h \<notin> set (headerColumns text)) req"
    by (auto simp add: readHeader_cases)
  show ?thesis
    using a b r[of req] r[of mslRequired]
    by (simp only: parseCsv_Inl_iff parseCsv_Inr_iff simp_thms)
qed

lemma nonEmptyLines_examples:
  "length (nonEmptyLines []) = 0"
  "length (nonEmptyLines csvBlankLines) = 1"
  "length (nonEmptyLines csvNoBreakSpace) = 1"
  "length (nonEmptyLines csvNoPriority) = 2"
  "length (nonEmptyLines csvOneRow) = 2"
  by (simp_all add: nonEmptyLines_def csvBlankLines_def csvNoBreakSpace_def csvNoPriority_def
        csvOneRow_def newline_def trim_def isSpace_def)

lemma headerColumns_examples:
  "headerColumns csvNoPriority = [''CATEGORY'', ''SKU_CODE'', ''PRODUCT_NAME'']"
  "headerColumns csvOneRow = [''CATEGORY'', ''SKU_CODE'', ''PRODUCT_NAME'', ''PRIORITY'']"
  by (simp_all add: headerColumns_def headerLine_def csvNoPriority_def csvOneRow_def
        newline_def comma_def trim_def isSpace_def toUpperCase_def upperChar_def
        lowerCase_def upperCase_def)

theorem structural_failure_exactly_witness:
  "mslRequired \<in> set [mslRequired, productRequired, storeRequired]
   \<and> productRequired \<in> set [mslRequired, productRequired, storeRequired]
   \<and> storeRequired \<in> set [mslRequired, productRequired, storeRequired]
   \<and> readHeader mslRequired [] = Inl EmptyInput
   \<and> parseCsv csvBlankLines = Inl EmptyInput
   \<and> parseCsv csvNoBreakSpace = Inl EmptyInput
   \<and> readHeader storeRequired csvNoBreakSpace = Inl EmptyInput
   \<and> parseCsv csvNoPriority = Inl (MissingColumns [''PRIORITY''])
   \<and> readHeader productRequired csvNoPriority
        = Inl (MissingColumns [''BRAND'', ''PRICE''])
   \<and> (\<exists>rows. parseCsv csvOneRow = Inr rows)"
proof -
  have m: "mslRequired \<in> set [mslRequired, productRequired, storeRequired]"
    and p: "productRequired \<in> set [mslRequired, productRequired, storeRequired]"
    and s: "storeRequired \<in> set [mslRequired, productRequired, storeRequired]"
    by simp_all
  have 1: "readHeader mslRequired [] = Inl EmptyInput"
    using structural_failure_exactly[OF m, of "[]"]
    by (simp add: nonEmptyLines_examples)
  have 2: "parseCsv csvBlankLines = Inl EmptyInput"
    using structural_failure_exactly[OF m, of csvBlankLines _ EmptyInput]
    by (simp add: nonEmptyLines_examples)
  have 3: "parseCsv csvNoBreakSpace = Inl EmptyInput"
    using structural_failure_exactly[OF m, of csvNoBreakSpace _ EmptyInput]
    by (simp add: nonEmptyLines_examples)
  have 4: "readHeader storeRequired csvNoBreakSpace = Inl EmptyInput"
    using structural_failure_exactly[OF s, of csvNoBreakSpace]
    by (simp add: nonEmptyLines_examples)
  have 5: "parseCsv csvNoPriority = Inl (MissingColumns [''PRIORITY''])"
    using structural_failure_exactly[OF m, of csvNoPriority "[''PRIORITY'']"
        "MissingColumns [''PRIORITY'']"]
    by (simp add: nonEmptyLines_examples headerColumns_examples mslRequired_def)
  have 6: "readHeader productRequired csvNoPriority
        = Inl (MissingColumns [''BRAND'', ''PRICE''])"
    using structural_failure_exactly[OF p, of csvNoPriority "[''BRAND'', ''PRICE'']"]
    by (simp add: nonEmptyLines_examples headerColumns_examples productRequired_def)
  have 7: "\<exists>rows. parseCsv csvOneRow = Inr rows"
    using structural_failure_exactly[OF m, of csvOneRow]
    by (simp add: nonEmptyLines_examples headerColumns_examples mslRequired_def)
  from m p s 1 2 3 4 5 6 7 show ?thesis by blast
qed


text \<open>
  C7. On a data line whose cells are wrapped in double quotes, the MSL upload and the store
  upload give the cells without the quotes, and the product upload gives them with the quotes:
  it splits on commas and trims, and does not strip.
\<close>

theorem product_cells_keep_their_quotes:
  "productValues quotedProductLine
     = [[quote] @ ''SKU001'' @ [quote], [quote] @ ''Mascara'' @ [quote], ''Brand'', ''Makeup'', ''185000'']
   \<and> mslValues quotedProductLine = [''SKU001'', ''Mascara'', ''Brand'', ''Makeup'', ''185000'']
   \<and> storeValues quotedProductLine = [''SKU001'', ''Mascara'', ''Brand'', ''Makeup'', ''185000'']"
  by (simp add: productValues_def mslValues_def storeValues_def quotedProductLine_def
        comma_def quote_def trim_def isSpace_def stripQuotes_def)

text \<open>
  C9. The duplicate check of the MSL upload compares the text \<^verbatim>\<open>category + "-" + sku\<close>. In the
  file with the rows (A, B-C) and (A-B, C), both rows give the text A-B-C: the second row is
  marked invalid as a duplicate, though its pair of category and SKU differs from the pair of
  the first row, which is valid.
\<close>

theorem duplicate_check_conflates_distinct_keys:
  "(case parseCsv csvDup of
      Inr [first, second] \<Rightarrow>
        isValid first \<and> csv_category first = ''A'' \<and> csv_sku_code first = ''B-C''
        \<and> csv_category second = ''A-B'' \<and> csv_sku_code second = ''C''
        \<and> (csv_category first, csv_sku_code first) \<noteq> (csv_category second, csv_sku_code second)
        \<and> \<not> isValid second
        \<and> error second = ''Row 3: Duplicate SKU in same category''
    | _ \<Rightarrow> False)"
  by code_simp

section \<open>Export and parse of the MSL\<close>

lemma digitChar_in: "d < 10 \<Longrightarrow> digitChar d \<in> set ''0123456789''"
  unfolding digitChar_def by (rule nth_mem) simp

lemma showNat_digits: "set (showNat n) \<subseteq> set ''0123456789''"
proof (induction n rule: showNat.induct)
  case (1 n)
  show ?case
  proof (cases "n < 10")
    case True
    then show ?thesis using digitChar_in[of n] by (subst showNat.simps) simp
  next
    case False
    then have "set (showNat (n div 10)) \<subseteq> set ''0123456789''" by (rule 1)
    moreover have "digitChar (n mod 10) \<in> set ''0123456789''" by (rule digitChar_in) simp
    ultimately show ?thesis using False by (subst showNat.simps) simp
  qed
qed

lemma showNat_nonempty: "showNat n \<noteq> []"
  by (subst showNat.simps) simp

lemma digitValue_digitChar: "d < 10 \<Longrightarrow> digitValue 10 (digitChar d) = Some d"
proof -
  assume "d < 10"
  then have "d \<in> {0, 1, 2, 3, 4, 5, 6, 7, 8, 9}" by auto
  then show ?thesis by (auto simp: digitValue_def digitChar_def)
qed

lemma digitValue_digit: "c \<in> set ''0123456789'' \<Longrightarrow> digitValue 10 c \<noteq> None"
  by (auto simp: digitValue_def)

lemma showNat_value:
  "foldl (\<lambda>a c. a * 10 + the (digitValue 10 c)) 0 (showNat n) = n"
proof (induction n rule: showNat.induct)
  case (1 n)
  show ?case
  proof (cases "n < 10")
    case True
    then show ?thesis by (subst showNat.simps) (simp add: digitValue_digitChar)
  next
    case False
    then have "foldl (\<lambda>a c. a * 10 + the (digitValue 10 c)) 0 (showNat (n div 10)) = n div 10"
      by (rule 1)
    then show ?thesis using False
      by (subst showNat.simps) (simp add: digitValue_digitChar)
  qed
qed

lemma parseDigits_showNat: "parseDigits 10 (showNat n) = Some (int n)"
proof -
  have "\<forall>c\<in>set (showNat n). digitValue 10 c \<noteq> None"
    using showNat_digits[of n] digitValue_digit by blast
  then have t: "takeWhile (\<lambda>c. digitValue 10 c \<noteq> None) (showNat n) = showNat n"
    by (simp only: takeWhile_eq_all_conv)
  show ?thesis
    unfolding parseDigits_def Let_def t
    by (simp add: showNat_nonempty showNat_value)
qed

lemma digits_facts:
  assumes "c \<in> set ''0123456789''"
  shows "\<not> isSpace c" "c \<noteq> quote" "c \<noteq> comma" "c \<noteq> newline" "c \<noteq> CHR ''-''"
    "c \<noteq> CHR ''+''" "c \<noteq> CHR ''x''" "c \<noteq> CHR ''X''"
  using assms by (auto simp: isSpace_def quote_def comma_def newline_def)

lemma parseInt_showNat: "parseInt (showNat n) = Some (int n)"
proof -
  obtain c cs where s: "showNat n = c # cs"
    using showNat_nonempty[of n] by (cases "showNat n") auto
  have c: "c \<in> set ''0123456789''" using showNat_digits[of n] s by auto
  have d: "dropWhile isSpace (showNat n) = showNat n"
    using digits_facts(1)[OF c] by (simp add: s)
  have hex: "\<not> (case showNat n of a # b # cs \<Rightarrow> a = CHR ''0'' \<and> (b = CHR ''x'' \<or> b = CHR ''X'')
                 | _ \<Rightarrow> False)"
  proof (cases cs)
    case Nil
    then show ?thesis by (simp add: s)
  next
    case (Cons b bs)
    then have "b \<in> set ''0123456789''" using showNat_digits[of n] s by auto
    then have "b \<noteq> CHR ''x''" "b \<noteq> CHR ''X''" by (rule digits_facts)+
    then show ?thesis by (simp add: s Cons)
  qed
  have sg: "c \<noteq> CHR ''-''" "c \<noteq> CHR ''+''" using c by (rule digits_facts)+
  show ?thesis
    unfolding parseInt_def d
    using hex sg parseDigits_showNat[of n]
    by (simp add: s Let_def)
qed

lemma parseInt_minus_showNat: "parseInt (CHR ''-'' # showNat n) = Some (- int n)"
proof -
  obtain c cs where s: "showNat n = c # cs"
    using showNat_nonempty[of n] by (cases "showNat n") auto
  have c: "c \<in> set ''0123456789''" using showNat_digits[of n] s by auto
  have m: "\<not> isSpace (CHR ''-'')" by (simp add: isSpace_def)
  have hex: "\<not> (case showNat n of a # b # cs \<Rightarrow> a = CHR ''0'' \<and> (b = CHR ''x'' \<or> b = CHR ''X'')
                 | _ \<Rightarrow> False)"
  proof (cases cs)
    case Nil
    then show ?thesis by (simp add: s)
  next
    case (Cons b bs)
    then have "b \<in> set ''0123456789''" using showNat_digits[of n] s by auto
    then have "b \<noteq> CHR ''x''" "b \<noteq> CHR ''X''" by (rule digits_facts)+
    then show ?thesis by (simp add: s Cons)
  qed
  show ?thesis
    unfolding parseInt_def
    using hex m parseDigits_showNat[of n]
    by (simp add: Let_def)
qed

lemma parseInt_showInt: "parseInt (showInt p) = Some p"
  by (simp add: showInt_def parseInt_showNat parseInt_minus_showNat)

lemma showInt_plain:
  "comma \<notin> set (showInt p)" "newline \<notin> set (showInt p)"
  "stripQuotes (trim (showInt p)) = showInt p" "showInt p \<noteq> []"
proof -
  let ?n = "showNat (nat \<bar>p\<bar>)"
  have s: "showInt p = ?n \<or> showInt p = CHR ''-'' # ?n"
    by (auto simp add: showInt_def abs_if)
  have d: "set ?n \<subseteq> set ''0123456789''" by (rule showNat_digits)
  have ne0: "?n \<noteq> []" by (rule showNat_nonempty)
  have cm: "comma \<noteq> CHR ''-''" "newline \<noteq> CHR ''-''" "quote \<noteq> CHR ''-''"
    "\<not> isSpace (CHR ''-'')"
    by (simp_all add: comma_def newline_def quote_def isSpace_def)
  have cn: "comma \<notin> set ?n" using d digits_facts(3) by blast
  have nn: "newline \<notin> set ?n" using d digits_facts(4) by blast
  from s show "comma \<notin> set (showInt p)"
  proof
    assume "showInt p = ?n"
    then show ?thesis using cn by simp
  next
    assume "showInt p = CHR ''-'' # ?n"
    then show ?thesis using cn cm(1) by simp
  qed
  from s show "newline \<notin> set (showInt p)"
  proof
    assume "showInt p = ?n"
    then show ?thesis using nn by simp
  next
    assume "showInt p = CHR ''-'' # ?n"
    then show ?thesis using nn cm(2) by simp
  qed
  show ne: "showInt p \<noteq> []" using s ne0 by auto
  have h0: "hd ?n \<in> set ''0123456789''" using d ne0 hd_in_set by blast
  have l0: "last ?n \<in> set ''0123456789''" using d ne0 last_in_set by blast
  have h: "\<not> isSpace (hd (showInt p))" "hd (showInt p) \<noteq> quote"
    using s digits_facts(1,2)[OF h0] cm(3,4) by auto
  have "last (showInt p) = last ?n" using s ne0 by auto
  then have l: "\<not> isSpace (last (showInt p))" "last (showInt p) \<noteq> quote"
    using digits_facts(1,2)[OF l0] by simp_all
  have t: "trim (showInt p) = showInt p" using ne h(1) l(1) by (rule trim_id)
  obtain c cs where c: "showInt p = c # cs" using ne by (cases "showInt p") auto
  with h(2) have "c \<noteq> quote" by simp
  moreover have "last (c # cs) \<noteq> quote" using l(2) c by metis
  ultimately have "stripQuotes (c # cs) = c # cs" by (simp add: stripQuotes_def)
  with t c show "stripQuotes (trim (showInt p)) = showInt p" by simp
qed

lemma stripQuotes_quoted: "stripQuotes (quote # s @ [quote]) = s"
  by (simp add: stripQuotes_def)

lemma trim_quoted: "trim (quote # s @ [quote]) = quote # s @ [quote]"
proof -
  have "\<not> isSpace quote" by (simp add: isSpace_def quote_def)
  then show ?thesis by (intro trim_id) simp_all
qed

lemma comma_not_quote: "comma \<noteq> quote" "quote \<noteq> comma" "newline \<noteq> quote" "newline \<noteq> comma"
  by (simp_all add: comma_def quote_def newline_def)

subsection \<open>The cells read back from an exported line\<close>

lemma readBack_commaFree:
  assumes "commaFree item"
  shows "\<exists>more. readBack item =
           [stripQuotes (trim (category item)), stripQuotes (trim (sku_code item)),
            product_name item, showInt (priority item)] @ more"
proof -
  let ?n = "case notes' item of None \<Rightarrow> [] | Some n \<Rightarrow> n"
  from assms have c: "comma \<notin> set (category item)" "comma \<notin> set (sku_code item)"
    "comma \<notin> set (product_name item)"
    by (simp_all add: commaFree_def)
  have q: "comma \<notin> set (quote # product_name item @ [quote])"
    using c comma_not_quote by auto
  let ?r4 = "quote # ?n @ [quote]"
  let ?r3 = "showInt (priority item) @ comma # ?r4"
  let ?r2 = "(quote # product_name item @ [quote]) @ comma # ?r3"
  let ?r1 = "sku_code item @ comma # ?r2"
  have e: "exportLine item = category item @ comma # ?r1"
    by (simp add: exportLine_def)
  have s3: "split comma ?r3 = showInt (priority item) # split comma ?r4"
    using showInt_plain(1) by (rule split_append_sep)
  have s2: "split comma ?r2 = (quote # product_name item @ [quote]) # split comma ?r3"
    using q by (rule split_append_sep)
  have s1: "split comma ?r1 = sku_code item # split comma ?r2"
    using c(2) by (rule split_append_sep)
  have s0: "split comma (category item @ comma # ?r1) = category item # split comma ?r1"
    using c(1) by (rule split_append_sep)
  have "split comma (exportLine item) =
      [category item, sku_code item, quote # product_name item @ [quote],
       showInt (priority item)] @ split comma ?r4"
    unfolding e s0 s1 s2 s3 by simp
  then show ?thesis
    by (simp add: readBack_def mslValues_def trim_quoted stripQuotes_quoted showInt_plain(3))
qed

lemma commaFree_reads_back:
  assumes "commaFree item"
  shows "readsBackValid item \<longleftrightarrow>
           stripQuotes (trim (category item)) \<noteq> [] \<and> stripQuotes (trim (sku_code item)) \<noteq> []
           \<and> product_name item \<noteq> [] \<and> 1 \<le> priority item"
    and "readKey item = decodedKey item"
proof -
  from readBack_commaFree[OF assms] obtain more where
    r: "readBack item =
           [stripQuotes (trim (category item)), stripQuotes (trim (sku_code item)),
            product_name item, showInt (priority item)] @ more"
    by blast
  show "readsBackValid item \<longleftrightarrow>
           stripQuotes (trim (category item)) \<noteq> [] \<and> stripQuotes (trim (sku_code item)) \<noteq> []
           \<and> product_name item \<noteq> [] \<and> 1 \<le> priority item"
    by (simp add: readsBackValid_def r cellAt_def Let_def parseInt_showInt showInt_plain(4))
  show "readKey item = decodedKey item"
    by (simp add: readKey_def decodedKey_def r cellAt_def)
qed

subsection \<open>The loop of the parse on exported lines\<close>

lemma length_mslRows: "length (mslRows ix ls i seen) = length ls"
  by (induction ls arbitrary: i seen) (simp_all add: Let_def)

lemma list_all_hd: "xs \<noteq> [] \<Longrightarrow> list_all P xs \<Longrightarrow> P (hd xs)"
  by (cases xs) simp_all

lemma mslRows_exported_Cons:
  "list_all isValid (mslRows exportedIndices (exportLine item # rest) i seen) \<longleftrightarrow>
     readsBackValid item \<and> readKey item \<notin> set seen
     \<and> list_all isValid (mslRows exportedIndices rest (i + 1) (set_add (readKey item) seen))"
proof (cases "readsBackValid item \<and> readKey item \<notin> set seen")
  case True
  then show ?thesis
    by (simp add: Let_def exportedIndices_def readsBackValid_def readKey_def readBack_def
        set_has_def split: option.splits)
next
  case False
  let ?R = "mslRows exportedIndices (exportLine item # rest) i seen"
  from False have nv: "\<not> isValid (hd ?R)"
    by (auto simp add: Let_def exportedIndices_def readsBackValid_def readKey_def readBack_def
        set_has_def split: option.splits)
  have ne: "?R \<noteq> []" by (simp add: Let_def)
  from nv ne have "\<not> list_all isValid ?R" using list_all_hd by blast
  with False show ?thesis by blast
qed

lemma mslRows_exported:
  "list_all isValid (mslRows exportedIndices (map exportLine items) i seen) \<longleftrightarrow>
     list_all readsBackValid items \<and> distinct (map readKey items)
     \<and> set (map readKey items) \<inter> set seen = {}"
proof (induction items arbitrary: i seen)
  case Nil
  then show ?case by simp
next
  case (Cons item items)
  have "list_all isValid (mslRows exportedIndices (map exportLine (item # items)) i seen) \<longleftrightarrow>
     readsBackValid item \<and> readKey item \<notin> set seen
     \<and> list_all isValid (mslRows exportedIndices (map exportLine items) (i + 1)
          (set_add (readKey item) seen))"
    unfolding list.map by (rule mslRows_exported_Cons)
  also have "\<dots> \<longleftrightarrow> readsBackValid item \<and> readKey item \<notin> set seen
     \<and> list_all readsBackValid items \<and> distinct (map readKey items)
     \<and> set (map readKey items) \<inter> set (set_add (readKey item) seen) = {}"
    unfolding Cons.IH by (rule refl)
  also have "\<dots> \<longleftrightarrow> list_all readsBackValid (item # items)
     \<and> distinct (map readKey (item # items))
     \<and> set (map readKey (item # items)) \<inter> set seen = {}"
    by (auto simp add: set_set_add)
  finally show ?case .
qed

subsection \<open>The lines of the exported text\<close>

lemma split_append:
  "split sep (a @ sep # b) = split sep a @ split sep b"
proof (induction a)
  case Nil
  then show ?case by (simp add: Let_def)
next
  case (Cons c a)
  have ne: "split sep a \<noteq> []" by (rule split_nonempty)
  show ?case
  proof (cases "c = sep")
    case True
    then show ?thesis using Cons by (simp add: Let_def)
  next
    case False
    then show ?thesis using Cons ne by (simp add: Let_def)
  qed
qed

lemma joinLines_Cons: "joinLines (l # ls) = (if ls = [] then l else l @ newline # joinLines ls)"
  by (cases ls) simp_all

lemma split_joinLines:
  "split newline (joinLines (l0 # ls)) = concat (map (split newline) (l0 # ls))"
proof (induction ls arbitrary: l0)
  case Nil
  then show ?case by simp
next
  case (Cons l ls)
  have "joinLines (l0 # l # ls) = l0 @ newline # joinLines (l # ls)" by simp
  then show ?case using Cons[of l] by (simp only: split_append list.map concat.simps)
qed

lemma hd_joinLines: "l0 \<noteq> [] \<Longrightarrow> hd (joinLines (l0 # ls)) = hd l0"
  by (simp add: joinLines_Cons)

lemma last_joinLines:
  "last (l0 # ls) \<noteq> [] \<Longrightarrow> last (joinLines (l0 # ls)) = last (last (l0 # ls))"
proof (induction ls arbitrary: l0)
  case Nil
  then show ?case by simp
next
  case (Cons l ls)
  then have "last (joinLines (l # ls)) = last (last (l # ls))" by simp
  moreover have "joinLines (l # ls) \<noteq> []"
    using Cons.prems by (cases ls) (auto simp: joinLines_Cons)
  ultimately show ?case by (simp add: joinLines_Cons)
qed

lemma exportLine_facts:
  "newline \<notin> set (exportLine item) \<longleftrightarrow> noLineFeed item" "exportLine item \<noteq> []"
  "last (exportLine item) = quote"
  using showInt_plain(2)[of "priority item"] comma_not_quote
  by (auto simp: exportLine_def noLineFeed_def fields_def split: option.splits)

lemma exportHeader_facts:
  "newline \<notin> set exportHeader" "exportHeader \<noteq> []" "\<not> isSpace (hd exportHeader)"
  "mslIndices (map (\<lambda>h. toUpperCase (trim h)) (split comma exportHeader)) = exportedIndices"
  "filter (\<lambda>header. header \<notin> set (map (\<lambda>h. toUpperCase (trim h)) (split comma exportHeader)))
     mslRequired = []"
  by (simp_all add: exportHeader_def newline_def isSpace_def comma_def mslIndices_def
        exportedIndices_def trim_def toUpperCase_def upperChar_def lowerCase_def upperCase_def
        mslRequired_def)

lemma length_exported_lines:
  "length items \<le> length (concat (map (split newline) (map exportLine items)))"
  "length (concat (map (split newline) (map exportLine items))) = length items \<longleftrightarrow>
     list_all noLineFeed items"
proof -
  show le: "\<And>items. length items \<le> length (concat (map (split newline) (map exportLine items)))"
  proof -
    fix items :: "MSLItem list"
    show "length items \<le> length (concat (map (split newline) (map exportLine items)))"
      by (induction items) (simp_all add: length_split)
  qed
  show "length (concat (map (split newline) (map exportLine items))) = length items \<longleftrightarrow>
     list_all noLineFeed items"
  proof (induction items)
    case Nil
    then show ?case by simp
  next
    case (Cons item items)
    have f: "filter (\<lambda>c. c = newline) (exportLine item) = [] \<longleftrightarrow> noLineFeed item"
      using exportLine_facts(1)[of item] by (auto simp add: filter_empty_conv)
    show ?case using Cons le[of items] f
      by (auto simp add: length_split)
  qed
qed

lemma exported_lines:
  "list_all noLineFeed items \<Longrightarrow>
   concat (map (split newline) (map exportLine items)) = map exportLine items"
  by (induction items) (simp_all add: split_no_sep exportLine_facts(1))

lemma parseCsv_exportMSL:
  "parseCsv (exportMSL items) =
     (if items = [] then Inl EmptyInput
      else Inr (mslRows exportedIndices (concat (map (split newline) (map exportLine items))) 1 []))"
proof (cases "items = []")
  case True
  have "readHeader mslRequired exportHeader = Inl EmptyInput"
    by (simp add: readHeader_cases nonEmptyLines_def split_no_sep exportHeader_facts(1))
  then show ?thesis using True by (simp add: parseCsv_def exportMSL_def exportHeader_def)
next
  case False
  let ?lines = "exportHeader # map exportLine items"
  let ?data = "concat (map (split newline) (map exportLine items))"
  let ?text = "joinLines ?lines"
  have t: "exportMSL items = ?text" by (simp add: exportMSL_def exportHeader_def)
  have lastline: "last ?lines = exportLine (last items)" using False by (simp add: last_map)
  have "last ?lines \<noteq> []" unfolding lastline by (rule exportLine_facts(2))
  then have "last ?text = last (last ?lines)" by (rule last_joinLines)
  then have l: "last ?text = quote" unfolding lastline by (simp add: exportLine_facts(3))
  have h: "hd ?text = hd exportHeader" using exportHeader_facts(2) by (rule hd_joinLines)
  have tne: "?text \<noteq> []" using exportHeader_facts(2) by (simp add: joinLines_Cons)
  have "\<not> isSpace quote" by (simp add: isSpace_def quote_def)
  then have tr: "trim ?text = ?text"
    using tne h l exportHeader_facts(3) by (intro trim_id) simp_all
  have sp: "split newline ?text = exportHeader # ?data"
    unfolding split_joinLines by (simp add: split_no_sep exportHeader_facts(1))
  have "0 < length items" using False by simp
  moreover have "length items \<le> length ?data" by (rule length_exported_lines(1))
  ultimately have "0 < length ?data" by (rule less_le_trans)
  then have len: "\<not> length (exportHeader # ?data) < 2" by simp
  have "readHeader mslRequired ?text
        = Inr (map (\<lambda>h. toUpperCase (trim h)) (split comma exportHeader), exportHeader # ?data)"
    unfolding readHeader_def tr sp Let_def list.sel(1) exportHeader_facts(5) using len
    by simp
  then show ?thesis
    unfolding t parseCsv_def using False by (simp add: exportHeader_facts(4))
qed

lemma counts_of_rows:
  "validCount rows = n \<and> invalidCount rows = 0 \<longleftrightarrow> length rows = n \<and> list_all isValid rows"
proof -
  have a: "validCount rows + invalidCount rows = length rows"
    unfolding validCount_def invalidCount_def by (rule sum_length_filter_compl)
  have b: "invalidCount rows = 0 \<longleftrightarrow> list_all isValid rows"
    by (auto simp add: invalidCount_def filter_empty_conv list_all_iff)
  show ?thesis
  proof (cases "invalidCount rows = 0")
    case True
    with a have "validCount rows = length rows" by simp
    with True b show ?thesis by simp
  next
    case False
    with b show ?thesis by simp
  qed
qed

subsection \<open>The round trip\<close>

text \<open>
  C3, as the code has it. Exporting the items and parsing the exported text gives as many
  valid rows as there are items, and no invalid row, exactly when there is an item, no
  category, SKU, product name or notes holds a line feed, the cells 0 to 3 read back from
  every exported line are not empty and the cell 3 is read by \<^verbatim>\<open>parseInt\<close> as an integer of at
  least 1, and the texts that the duplicate check sees are pairwise different. For an item
  without a comma in its category, SKU and product name, whatever its notes, the cells pass
  exactly when category and SKU are not empty as decoded cells, the product name is not
  empty and the priority is at least 1, and the duplicate check sees the decoded category
  and SKU.
\<close>

theorem export_then_parse_all_valid:
  "((\<exists>rows. parseCsv (exportMSL items) = Inr rows
        \<and> validCount rows = length items \<and> invalidCount rows = 0)
     \<longleftrightarrow> items \<noteq> [] \<and> list_all noLineFeed items \<and> list_all readsBackValid items
         \<and> distinct (map readKey items))
   \<and> (commaFree item \<longrightarrow>
        (readsBackValid item \<longleftrightarrow>
           stripQuotes (trim (category item)) \<noteq> [] \<and> stripQuotes (trim (sku_code item)) \<noteq> []
           \<and> product_name item \<noteq> [] \<and> 1 \<le> priority item)
        \<and> readKey item = decodedKey item)"
proof (intro conjI impI)
  show "(\<exists>rows. parseCsv (exportMSL items) = Inr rows
        \<and> validCount rows = length items \<and> invalidCount rows = 0)
     \<longleftrightarrow> items \<noteq> [] \<and> list_all noLineFeed items \<and> list_all readsBackValid items
         \<and> distinct (map readKey items)"
  proof (cases "items = []")
    case True
    have "parseCsv (exportMSL items) = Inl EmptyInput"
      unfolding parseCsv_exportMSL using True by (rule if_P)
    with True show ?thesis by simp
  next
    case False
    let ?data = "concat (map (split newline) (map exportLine items))"
    let ?R = "mslRows exportedIndices ?data 1 []"
    let ?E = "mslRows exportedIndices (map exportLine items) 1 []"
    have p: "parseCsv (exportMSL items) = Inr ?R"
      unfolding parseCsv_exportMSL using False by (rule if_not_P)
    have "(\<exists>rows. parseCsv (exportMSL items) = Inr rows
        \<and> validCount rows = length items \<and> invalidCount rows = 0)
      \<longleftrightarrow> validCount ?R = length items \<and> invalidCount ?R = 0"
      unfolding p by blast
    also have "\<dots> \<longleftrightarrow> length ?R = length items \<and> list_all isValid ?R"
      by (rule counts_of_rows)
    also have "\<dots> \<longleftrightarrow> list_all noLineFeed items \<and> list_all isValid ?R"
      unfolding length_mslRows length_exported_lines(2) by (rule refl)
    also have "\<dots> \<longleftrightarrow> list_all noLineFeed items \<and> list_all isValid ?E"
    proof (cases "list_all noLineFeed items")
      case True
      then have "?data = map exportLine items" by (rule exported_lines)
      then show ?thesis by (simp only:)
    next
      case False
      then show ?thesis by blast
    qed
    also have "\<dots> \<longleftrightarrow> list_all noLineFeed items \<and> list_all readsBackValid items
         \<and> distinct (map readKey items)"
      unfolding mslRows_exported by simp
    finally show ?thesis using False by blast
  qed
next
  assume "commaFree item"
  then show "readsBackValid item \<longleftrightarrow>
           stripQuotes (trim (category item)) \<noteq> [] \<and> stripQuotes (trim (sku_code item)) \<noteq> []
           \<and> product_name item \<noteq> [] \<and> 1 \<le> priority item"
    by (rule commaFree_reads_back(1))
next
  assume "commaFree item"
  then show "readKey item = decodedKey item"
    by (rule commaFree_reads_back(2))
qed

theorem export_then_parse_all_valid_witness:
  "notesItems \<noteq> [] \<and> list_all noLineFeed notesItems \<and> list_all readsBackValid notesItems
   \<and> distinct (map readKey notesItems)
   \<and> (\<exists>rows. parseCsv (exportMSL notesItems) = Inr rows
        \<and> validCount rows = 2 \<and> invalidCount rows = 0)
   \<and> commaFree (hd notesItems) \<and> readsBackValid (hd notesItems)
   \<and> readKey (hd notesItems) = decodedKey (hd notesItems)
   \<and> decodedKey (hd notesItems) = ''X-A''
   \<and> (case parseCsv (exportMSL notesItems) of
        Inl e \<Rightarrow> False
      | Inr rows \<Rightarrow>
          map csv_product_name rows = [''a'', ''Foo'']
          \<and> map csv_priority rows = [Some 1, Some 5]
          \<and> map csv_notes rows = [''n1'', ''2''])"
proof -
  have n: "notesItems \<noteq> []" by (simp add: notesItems_def)
  have f: "list_all noLineFeed notesItems" by code_simp
  have r: "list_all readsBackValid notesItems" by code_simp
  have d: "distinct (map readKey notesItems)" by code_simp
  have l: "length notesItems = 2" by (simp add: notesItems_def)
  have c: "commaFree (hd notesItems)" by code_simp
  have k: "decodedKey (hd notesItems) = ''X-A''" by code_simp
  note inst = export_then_parse_all_valid[of notesItems "hd notesItems"]
  from inst n f r d
  have "\<exists>rows. parseCsv (exportMSL notesItems) = Inr rows
        \<and> validCount rows = length notesItems \<and> invalidCount rows = 0"
    by blast
  then have e: "\<exists>rows. parseCsv (exportMSL notesItems) = Inr rows
        \<and> validCount rows = 2 \<and> invalidCount rows = 0"
    unfolding l .
  from inst c have v: "readKey (hd notesItems) = decodedKey (hd notesItems)" by blast
  from r have h: "readsBackValid (hd notesItems)" by (simp add: notesItems_def)
  have x: "case parseCsv (exportMSL notesItems) of
        Inl e \<Rightarrow> False
      | Inr rows \<Rightarrow>
          map csv_product_name rows = [''a'', ''Foo'']
          \<and> map csv_priority rows = [Some 1, Some 5]
          \<and> map csv_notes rows = [''n1'', ''2'']"
    by code_simp
  from n f r d e c h v k x show ?thesis by blast
qed

text \<open>
  C3, as the specification states it, fails: an item whose product name holds a comma is
  exported as one line, which the parse splits into six cells; the cell read as the priority
  is not a number, and the row is invalid.
\<close>

theorem export_then_parse_counterexample:
  "length commaItems = 1
   \<and> (case parseCsv (exportMSL commaItems) of
        Inl e \<Rightarrow> False
      | Inr rows \<Rightarrow>
          validCount rows = 0 \<and> invalidCount rows = 1
          \<and> map csv_product_name rows = [''Foo'']
          \<and> map error rows = [''Row 2: Invalid priority (must be positive integer)''])"
  by code_simp


subsection \<open>The rows that an upload commits\<close>

lemma mslRows_valid_keys:
  "distinct (map concatKey (filter isValid (mslRows ix ls i seen)))
   \<and> set (map concatKey (filter isValid (mslRows ix ls i seen))) \<inter> set seen = {}"
proof (induction ls arbitrary: i seen)
  case Nil
  then show ?case by simp
next
  case (Cons line ls)
  let ?vals = "mslValues line"
  let ?cat = "cellAt ?vals (categoryIndex ix)"
  let ?sku = "cellAt ?vals (skuIndex ix)"
  let ?key = "?cat @ ''-'' @ ?sku"
  let ?missing = "?cat = [] \<or> ?sku = [] \<or> cellAt ?vals (nameIndex ix) = []
                   \<or> cellAt ?vals (priorityIndex ix) = []"
  define seen' where "seen' =
    (if \<not> ?missing \<and> \<not> (\<not> ?missing \<and> set_has seen ?key) then set_add ?key seen else seen)"
  define row where "row = hd (mslRows ix (line # ls) i seen)"
  define rest where "rest = map concatKey (filter isValid (mslRows ix ls (i + 1) seen'))"
  have row: "mslRows ix (line # ls) i seen = row # mslRows ix ls (i + 1) seen'"
    unfolding row_def seen'_def by (simp add: Let_def)
  have v: "isValid row \<Longrightarrow> ?key \<notin> set seen \<and> seen' = set_add ?key seen"
    unfolding row_def seen'_def by (auto simp add: Let_def set_has_def)
  have k: "concatKey row = ?key"
    unfolding row_def by (simp add: Let_def concatKey_def)
  have ih: "distinct rest \<and> set rest \<inter> set seen' = {}"
    unfolding rest_def by (rule Cons.IH)
  have sub: "set seen \<subseteq> set seen'"
    unfolding seen'_def by (auto simp: set_set_add)
  from ih sub have dis: "set rest \<inter> set seen = {}" by blast
  have keys: "map concatKey (filter isValid (mslRows ix (line # ls) i seen))
        = (if isValid row then ?key # rest else rest)"
    unfolding row rest_def by (simp add: k)
  show ?case
  proof (cases "isValid row")
    case True
    then have nk: "?key \<notin> set seen" and s': "seen' = set_add ?key seen"
      using v by simp_all
    from ih have "?key \<notin> set rest" unfolding s' by (auto simp: set_set_add)
    with ih dis nk True show ?thesis unfolding keys by simp
  next
    case False
    with ih dis show ?thesis unfolding keys by simp
  qed
qed

lemma parseCsv_valid_pairs_distinct:
  assumes "parseCsv text = Inr rows"
  shows "distinct (map (\<lambda>i. (csv_category i, csv_sku_code i)) (filter isValid rows))"
proof -
  let ?f = "\<lambda>p :: string \<times> string. fst p @ ''-'' @ snd p"
  let ?g = "\<lambda>i. (csv_category i, csv_sku_code i)"
  from assms obtain ix ls where "rows = mslRows ix ls 1 []"
    by (auto simp: parseCsv_def split: sum.splits prod.splits)
  then have d: "distinct (map concatKey (filter isValid rows))"
    using mslRows_valid_keys[of ix ls 1 "[]"] by simp
  have ck: "concatKey = ?f \<circ> ?g"
    by (auto simp: concatKey_def)
  from d have "distinct (map (?f \<circ> ?g) (filter isValid rows))"
    unfolding ck .
  then have "distinct (map ?f (map ?g (filter isValid rows)))"
    by (simp only: map_map)
  then show ?thesis
    using distinct_map[of ?f "map ?g (filter isValid rows)"] by blast
qed

text \<open>
  The rows that \<open>parseCsv\<close> marks valid have pairwise different pairs of category and SKU, so
  an upload of parsed rows whose priorities fit the column is not refused by the table.
\<close>

lemma uploadMSL_of_parsed_rows:
  assumes "parseCsv text = Inr rows" and "distinct (map mslKey tbl)"
    and "\<forall>i\<in>set (filter isValid rows). \<exists>p. csv_priority i = Some p \<and> - (2 ^ 31) \<le> p \<and> p < 2 ^ 31"
  shows "uploadMSL rows tbl = (None, kept rows tbl @ newRows rows)"
  using assms(2) parseCsv_valid_pairs_distinct[OF assms(1)] assms(3)
  by (rule uploadMSL_succeeds)

end
